theory Spec2Isabelle
  imports Complex_Main "HOL-Library.Word"
begin

unbundle bit_operations_syntax

section \<open>Strings and numbers of the source language\<close>

text \<open>
  A JavaScript string is a sequence of UTF-16 code units and \<open>.length\<close> counts them, so
  strings are lists of code units. \<open>ustr\<close> turns an ASCII literal into such a list.
\<close>

type_synonym jsstring = "nat list"

definition ustr :: "string \<Rightarrow> jsstring" where
  "ustr s = map of_char s"

text \<open>
  Template literals print a number as \<open>Number::toString\<close> does. The colour components
  that reach the printers are integers (from \<open>Math.round\<close> or from parsed digits) or
  \<open>NaN\<close>. An integer below \<open>10^21\<close> in magnitude prints as its decimal digits, a larger
  one in exponent form: the first digit, after a point the further digits up to the last
  that is not 0, then \<open>e+\<close> and the decimal exponent. Below \<open>2^53\<close> every integer is a
  double and these are the digits the runtime prints; for a larger one the runtime prints
  the shortest digits that identify the double, which the model idealises by the digits
  of the integer.
\<close>

datatype jsint = JNaN | JInt int

fun natToString :: "nat \<Rightarrow> jsstring" where
  "natToString n = (if n < 10 then [48 + n] else natToString (n div 10) @ [48 + n mod 10])"

declare natToString.simps [simp del]

definition expToString :: "nat \<Rightarrow> jsstring" where
  "expToString n =
     (let ds = natToString n;
          frac = rev (dropWhile (\<lambda>c. c = 48) (rev (tl ds)))
      in [hd ds] @ (if frac = [] then [] else 46 # frac) @ ustr ''e+''
           @ natToString (length ds - 1))"

definition magToString :: "nat \<Rightarrow> jsstring" where
  "magToString n = (if n < 10 ^ 21 then natToString n else expToString n)"

definition jsintToString :: "jsint \<Rightarrow> jsstring" where
  "jsintToString x =
     (case x of
        JNaN \<Rightarrow> ustr ''NaN''
      | JInt i \<Rightarrow> (if i < 0 then 45 # magToString (nat (- i)) else magToString (nat i)))"

section \<open>ANSI escape sequences\<close>

text \<open>The character class \<open>[0-9;]\<close>.\<close>

definition isCodeChar :: "nat \<Rightarrow> bool" where
  "isCodeChar c \<longleftrightarrow> (48 \<le> c \<and> c \<le> 57) \<or> c = 59"

text \<open>
  The regular expression \<^verbatim>\<open>\x1b\[([0-9;]*)m\<close> tried at the head of a string: the
  captured parameters and the text after the match. The class excludes \<open>m\<close>, so the
  greedy star has a single way to succeed: the longest run, then \<open>m\<close>.
\<close>

fun ansiSeq :: "jsstring \<Rightarrow> (jsstring \<times> jsstring) option" where
  "ansiSeq (e # l # cs) =
     (if e = 27 \<and> l = 91 then
        (case dropWhile isCodeChar cs of
           [] \<Rightarrow> None
         | m # rest \<Rightarrow> if m = 109 then Some (takeWhile isCodeChar cs, rest) else None)
      else None)"
| "ansiSeq _ = None"

lemma ansiSeq_length:
  "ansiSeq s = Some (p, rest) \<Longrightarrow> length rest < length s"
proof (cases s rule: ansiSeq.cases)
  case (1 e l cs)
  assume h: "ansiSeq s = Some (p, rest)"
  have "length (dropWhile isCodeChar cs) \<le> length cs"
    by (rule length_dropWhile_le)
  with h 1 show ?thesis
    by (auto split: if_splits list.splits)
qed simp_all

text \<open>\<open>str.replace(/\x1b\[[0-9;]*m/g, "")\<close>: one pass from the left, matches do not overlap.\<close>

function stripAnsi :: "jsstring \<Rightarrow> jsstring" where
  "stripAnsi [] = []"
| "stripAnsi (c # cs) =
     (case ansiSeq (c # cs) of
        Some (p, rest) \<Rightarrow> stripAnsi rest
      | None \<Rightarrow> c # stripAnsi cs)"
  by pat_completeness auto
termination
  by (relation "measure length") (auto dest: ansiSeq_length)

definition visibleWidth :: "jsstring \<Rightarrow> nat" where
  "visibleWidth str = length (stripAnsi str)"

text \<open>Whether the regular expression matches anywhere in the string.\<close>

fun hasAnsi :: "jsstring \<Rightarrow> bool" where
  "hasAnsi [] = False"
| "hasAnsi (c # cs) = (ansiSeq (c # cs) \<noteq> None \<or> hasAnsi cs)"

text \<open>
  Every ESC character that the scan of \<open>stripAnsi\<close> meets begins a complete escape
  sequence.
\<close>

function escapesComplete :: "jsstring \<Rightarrow> bool" where
  "escapesComplete [] = True"
| "escapesComplete (c # cs) =
     (case ansiSeq (c # cs) of
        Some (p, rest) \<Rightarrow> escapesComplete rest
      | None \<Rightarrow> c \<noteq> 27 \<and> escapesComplete cs)"
  by pat_completeness auto
termination
  by (relation "measure length") (auto dest: ansiSeq_length)

section \<open>Styled fragments and their serialisation\<close>

record RGBA =
  rgba_r :: jsint
  rgba_g :: jsint
  rgba_b :: jsint
  rgba_a :: jsint

text \<open>
  \<open>TextChunk\<close>: the constant field \<open>__isChunk\<close> is left out; an absent \<open>attributes\<close>
  field and the value 0 are the same to every reader in this program (both falsy).
\<close>

record TextChunk =
  chunk_text :: jsstring
  fg :: "RGBA option"
  bg :: "RGBA option"
  attributes :: nat

definition Attr_BOLD :: nat where "Attr_BOLD = push_bit 0 1"
definition Attr_DIM :: nat where "Attr_DIM = push_bit 1 1"
definition Attr_ITALIC :: nat where "Attr_ITALIC = push_bit 2 1"
definition Attr_UNDERLINE :: nat where "Attr_UNDERLINE = push_bit 3 1"
definition Attr_BLINK :: nat where "Attr_BLINK = push_bit 4 1"
definition Attr_INVERSE :: nat where "Attr_INVERSE = push_bit 5 1"
definition Attr_HIDDEN :: nat where "Attr_HIDDEN = push_bit 6 1"
definition Attr_STRIKETHROUGH :: nat where "Attr_STRIKETHROUGH = push_bit 7 1"

lemmas Attr_defs =
  Attr_BOLD_def Attr_DIM_def Attr_ITALIC_def Attr_UNDERLINE_def
  Attr_BLINK_def Attr_INVERSE_def Attr_HIDDEN_def Attr_STRIKETHROUGH_def

text \<open>The escape sequence \<^verbatim>\<open>ESC [ params m\<close>.\<close>

definition csi :: "jsstring \<Rightarrow> jsstring" where
  "csi params = [27, 91] @ params @ [109]"

definition rgbToAnsi :: "jsint \<Rightarrow> jsint \<Rightarrow> jsint \<Rightarrow> jsstring" where
  "rgbToAnsi r g b =
     csi (ustr ''38;2;'' @ jsintToString r @ [59] @ jsintToString g @ [59] @ jsintToString b)"

definition attrCodes :: "nat \<Rightarrow> jsstring" where
  "attrCodes attrs =
     (if attrs \<noteq> 0 then
        (if attrs AND Attr_BOLD \<noteq> 0 then csi (ustr ''1'') else []) @
        (if attrs AND Attr_DIM \<noteq> 0 then csi (ustr ''2'') else []) @
        (if attrs AND Attr_ITALIC \<noteq> 0 then csi (ustr ''3'') else []) @
        (if attrs AND Attr_UNDERLINE \<noteq> 0 then csi (ustr ''4'') else []) @
        (if attrs AND Attr_BLINK \<noteq> 0 then csi (ustr ''5'') else []) @
        (if attrs AND Attr_INVERSE \<noteq> 0 then csi (ustr ''7'') else []) @
        (if attrs AND Attr_HIDDEN \<noteq> 0 then csi (ustr ''8'') else []) @
        (if attrs AND Attr_STRIKETHROUGH \<noteq> 0 then csi (ustr ''9'') else [])
      else [])"

definition fgCode :: "RGBA option \<Rightarrow> jsstring" where
  "fgCode c = (case c of None \<Rightarrow> [] | Some x \<Rightarrow> rgbToAnsi (rgba_r x) (rgba_g x) (rgba_b x))"

definition bgCode :: "RGBA option \<Rightarrow> jsstring" where
  "bgCode c =
     (case c of
        None \<Rightarrow> []
      | Some x \<Rightarrow>
          csi (ustr ''48;2;'' @ jsintToString (rgba_r x) @ [59] @ jsintToString (rgba_g x)
               @ [59] @ jsintToString (rgba_b x)))"

text \<open>The body of the loop of \<open>textChunksToAnsi\<close>: what one chunk adds to \<open>result\<close>.\<close>

definition chunkToAnsi :: "TextChunk \<Rightarrow> jsstring" where
  "chunkToAnsi chunk =
     (let codes = attrCodes (attributes chunk) @ fgCode (fg chunk) @ bgCode (bg chunk)
      in codes @ chunk_text chunk @ (if codes \<noteq> [] then csi (ustr ''0'') else []))"

definition textChunksToAnsi :: "TextChunk list \<Rightarrow> jsstring" where
  "textChunksToAnsi chunks = foldl (\<lambda>result chunk. result @ chunkToAnsi chunk) [] chunks"

text \<open>The literal text of a chunk sequence, left to right.\<close>

definition chunksText :: "TextChunk list \<Rightarrow> jsstring" where
  "chunksText chunks = concat (map chunk_text chunks)"

text \<open>
  The printed colour components of a chunk are non-negative integers below \<open>2^53\<close>: they
  print as decimal digits.
\<close>

definition natComponent :: "jsint \<Rightarrow> bool" where
  "natComponent x = (case x of JNaN \<Rightarrow> False | JInt i \<Rightarrow> 0 \<le> i \<and> i < 2 ^ 53)"

definition natColour :: "RGBA option \<Rightarrow> bool" where
  "natColour c =
     (case c of
        None \<Rightarrow> True
      | Some x \<Rightarrow> natComponent (rgba_r x) \<and> natComponent (rgba_g x) \<and> natComponent (rgba_b x))"

definition natColours :: "TextChunk \<Rightarrow> bool" where
  "natColours chunk \<longleftrightarrow> natColour (fg chunk) \<and> natColour (bg chunk)"

section \<open>The parser of escape-coded text\<close>

datatype error = RangeError | TypeError

text \<open>\<open>str.split(sep)\<close> for a one-character separator: never empty.\<close>

fun splitOn :: "nat \<Rightarrow> jsstring \<Rightarrow> jsstring list" where
  "splitOn d [] = [[]]"
| "splitOn d (c # cs) =
     (if c = d then [] # splitOn d cs
      else (case splitOn d cs of [] \<Rightarrow> [[c]] | x # xs \<Rightarrow> (c # x) # xs))"

text \<open>
  \<open>Number(s)\<close> on a string of decimal digits (the only strings the parser's pattern lets
  through); the empty string is 0. Numbers beyond the exact range of a double are outside
  the model.
\<close>

definition Number :: "jsstring \<Rightarrow> nat" where
  "Number s = foldl (\<lambda>n c. 10 * n + (c - 48)) 0 s"

text \<open>The tables \<open>AnsiColors\<close> and \<open>AnsiBgColors\<close>: a missing key is \<open>undefined\<close>.\<close>

definition AnsiColors :: "nat \<Rightarrow> (int \<times> int \<times> int) option" where
  "AnsiColors code =
     (if code = 30 then Some (0, 0, 0)
      else if code = 31 then Some (205, 49, 49)
      else if code = 32 then Some (13, 188, 121)
      else if code = 33 then Some (229, 229, 16)
      else if code = 34 then Some (36, 114, 200)
      else if code = 35 then Some (188, 63, 188)
      else if code = 36 then Some (17, 168, 205)
      else if code = 37 then Some (229, 229, 229)
      else if code = 90 then Some (102, 102, 102)
      else if code = 91 then Some (241, 76, 76)
      else if code = 92 then Some (35, 209, 139)
      else if code = 93 then Some (245, 245, 67)
      else if code = 94 then Some (59, 142, 234)
      else if code = 95 then Some (214, 112, 214)
      else if code = 96 then Some (41, 184, 219)
      else if code = 97 then Some (229, 229, 229)
      else None)"

definition AnsiBgColors :: "nat \<Rightarrow> (int \<times> int \<times> int) option" where
  "AnsiBgColors code =
     (if code = 40 then Some (0, 0, 0)
      else if code = 41 then Some (205, 49, 49)
      else if code = 42 then Some (13, 188, 121)
      else if code = 43 then Some (229, 229, 16)
      else if code = 44 then Some (36, 114, 200)
      else if code = 45 then Some (188, 63, 188)
      else if code = 46 then Some (17, 168, 205)
      else if code = 47 then Some (229, 229, 229)
      else if code = 100 then Some (102, 102, 102)
      else if code = 101 then Some (241, 76, 76)
      else if code = 102 then Some (35, 209, 139)
      else if code = 103 then Some (245, 245, 67)
      else if code = 104 then Some (59, 142, 234)
      else if code = 105 then Some (214, 112, 214)
      else if code = 106 then Some (41, 184, 219)
      else if code = 107 then Some (229, 229, 229)
      else None)"

definition ansi256ToRgb :: "nat \<Rightarrow> int \<times> int \<times> int" where
  "ansi256ToRgb n =
     (if n < 16 then
        [(0, 0, 0), (128, 0, 0), (0, 128, 0), (128, 128, 0), (0, 0, 128), (128, 0, 128),
         (0, 128, 128), (192, 192, 192), (128, 128, 128), (255, 0, 0), (0, 255, 0),
         (255, 255, 0), (0, 0, 255), (255, 0, 255), (0, 255, 255), (255, 255, 255)] ! n
      else if n < 232 then
        (let idx = n - 16;
             r = idx div 36;
             g = (idx mod 36) div 6;
             b = idx mod 6
         in (if r \<noteq> 0 then int r * 40 + 55 else 0,
             if g \<noteq> 0 then int g * 40 + 55 else 0,
             if b \<noteq> 0 then int b * 40 + 55 else 0))
      else (let gray = (int n - 232) * 10 + 8 in (gray, gray, gray)))"

text \<open>The three variables the parser carries between escape sequences.\<close>

record AnsiStyle =
  cur_fg :: "RGBA option"
  cur_bg :: "RGBA option"
  cur_attributes :: nat

definition rgb255 :: "int \<times> int \<times> int \<Rightarrow> RGBA" where
  "rgb255 rgb =
     (case rgb of (r, g, b) \<Rightarrow>
        \<lparr>rgba_r = JInt r, rgba_g = JInt g, rgba_b = JInt b, rgba_a = JInt 255\<rparr>)"

text \<open>\<open>codes[i] ?? 0\<close> at an index counted from the head of the list.\<close>

definition codeOr0 :: "nat list \<Rightarrow> nat \<Rightarrow> nat" where
  "codeOr0 codes i = (if i < length codes then codes ! i else 0)"

text \<open>
  One turn of the inner \<open>while (i < codes.length)\<close> loop: \<open>code\<close> is \<open>codes[i]\<close>, \<open>rest\<close>
  holds \<open>codes[i + 1]\<close> and what follows. The result is the updated style and the amount the
  branch adds to \<open>i\<close> before the final \<open>i++\<close>. A colour table that had no entry for its key
  would make \<open>rgb[0]\<close> throw a TypeError.
\<close>

definition codeStep :: "nat \<Rightarrow> nat list \<Rightarrow> AnsiStyle \<Rightarrow> error + (nat \<times> AnsiStyle)" where
  "codeStep code rest st =
     (if code = 0 then
        Inr (0, st\<lparr>cur_fg := None, cur_bg := None, cur_attributes := 0\<rparr>)
      else if code = 1 then
        Inr (0, st\<lparr>cur_attributes := cur_attributes st OR Attr_BOLD\<rparr>)
      else if code = 2 then
        Inr (0, st\<lparr>cur_attributes := cur_attributes st OR Attr_DIM\<rparr>)
      else if code = 3 then
        Inr (0, st\<lparr>cur_attributes := cur_attributes st OR Attr_ITALIC\<rparr>)
      else if code = 4 then
        Inr (0, st\<lparr>cur_attributes := cur_attributes st OR Attr_UNDERLINE\<rparr>)
      else if code = 5 then
        Inr (0, st\<lparr>cur_attributes := cur_attributes st OR Attr_BLINK\<rparr>)
      else if code = 7 then
        Inr (0, st\<lparr>cur_attributes := cur_attributes st OR Attr_INVERSE\<rparr>)
      else if code = 9 then
        Inr (0, st\<lparr>cur_attributes := cur_attributes st OR Attr_STRIKETHROUGH\<rparr>)
      else if code \<ge> 30 \<and> code \<le> 37 then
        (case AnsiColors code of
           None \<Rightarrow> Inl TypeError
         | Some rgb \<Rightarrow> Inr (0, st\<lparr>cur_fg := Some (rgb255 rgb)\<rparr>))
      else if code \<ge> 40 \<and> code \<le> 47 then
        (case AnsiBgColors code of
           None \<Rightarrow> Inl TypeError
         | Some rgb \<Rightarrow> Inr (0, st\<lparr>cur_bg := Some (rgb255 rgb)\<rparr>))
      else if code \<ge> 90 \<and> code \<le> 97 then
        (case AnsiColors code of
           None \<Rightarrow> Inl TypeError
         | Some rgb \<Rightarrow> Inr (0, st\<lparr>cur_fg := Some (rgb255 rgb)\<rparr>))
      else if code \<ge> 100 \<and> code \<le> 107 then
        (case AnsiBgColors code of
           None \<Rightarrow> Inl TypeError
         | Some rgb \<Rightarrow> Inr (0, st\<lparr>cur_bg := Some (rgb255 rgb)\<rparr>))
      else if code = 38 \<and> 0 < length rest \<and> rest ! 0 = 2 then
        Inr (4, st\<lparr>cur_fg := Some (rgb255 (int (codeOr0 rest 1), int (codeOr0 rest 2),
                                          int (codeOr0 rest 3)))\<rparr>)
      else if code = 48 \<and> 0 < length rest \<and> rest ! 0 = 2 then
        Inr (4, st\<lparr>cur_bg := Some (rgb255 (int (codeOr0 rest 1), int (codeOr0 rest 2),
                                          int (codeOr0 rest 3)))\<rparr>)
      else if code = 38 \<and> 0 < length rest \<and> rest ! 0 = 5 then
        Inr (2, st\<lparr>cur_fg := Some (rgb255 (ansi256ToRgb (codeOr0 rest 1)))\<rparr>)
      else if code = 48 \<and> 0 < length rest \<and> rest ! 0 = 5 then
        Inr (2, st\<lparr>cur_bg := Some (rgb255 (ansi256ToRgb (codeOr0 rest 1)))\<rparr>)
      else if code = 39 then
        Inr (0, st\<lparr>cur_fg := None\<rparr>)
      else if code = 49 then
        Inr (0, st\<lparr>cur_bg := None\<rparr>)
      else Inr (0, st))"

text \<open>The loop itself, on the codes from index \<open>i\<close> on.\<close>

fun applyCodes :: "nat list \<Rightarrow> AnsiStyle \<Rightarrow> error + AnsiStyle" where
  "applyCodes [] st = Inr st"
| "applyCodes (code # rest) st =
     (case codeStep code rest st of
        Inl e \<Rightarrow> Inl e
      | Inr (skip, st') \<Rightarrow> applyCodes (drop skip rest) st')"

definition styledChunk :: "jsstring \<Rightarrow> AnsiStyle \<Rightarrow> TextChunk" where
  "styledChunk t st =
     \<lparr>chunk_text = t, fg = cur_fg st, bg = cur_bg st, attributes = cur_attributes st\<rparr>"

text \<open>
  The outer \<open>while ((match = regex.exec(input)) !== null)\<close> loop and the code after it.
  \<open>pending\<close> is \<open>input.slice(lastIndex, p)\<close> for the position \<open>p\<close> the search has reached.
\<close>

function ansiScan :: "AnsiStyle \<Rightarrow> jsstring \<Rightarrow> jsstring \<Rightarrow> TextChunk list \<Rightarrow> error + TextChunk list" where
  "ansiScan st pending [] chunks =
     Inr (if pending \<noteq> [] then chunks @ [styledChunk pending st] else chunks)"
| "ansiScan st pending (c # cs) chunks =
     (case ansiSeq (c # cs) of
        None \<Rightarrow> ansiScan st (pending @ [c]) cs chunks
      | Some (params, rest) \<Rightarrow>
          (case applyCodes (map Number (splitOn 59 params)) st of
             Inl e \<Rightarrow> Inl e
           | Inr st' \<Rightarrow>
               ansiScan st' [] rest
                 (if pending \<noteq> [] then chunks @ [styledChunk pending st] else chunks)))"
  by pat_completeness auto
termination
  by (relation "measure (\<lambda>(st, pending, s, chunks). length s)") (auto dest: ansiSeq_length)

definition ansiToStyledText :: "jsstring \<Rightarrow> error + TextChunk list" where
  "ansiToStyledText input =
     ansiScan \<lparr>cur_fg = None, cur_bg = None, cur_attributes = 0\<rparr> [] input []"

section \<open>String helpers\<close>

text \<open>White space as \<open>trim\<close>, \<open>\s\<close> and \<open>parseInt\<close> see it: WhiteSpace and LineTerminator.\<close>

definition isWhiteSpace :: "nat \<Rightarrow> bool" where
  "isWhiteSpace c \<longleftrightarrow>
     (9 \<le> c \<and> c \<le> 13) \<or> c = 32 \<or> c = 160 \<or> c = 5760 \<or> (8192 \<le> c \<and> c \<le> 8202) \<or>
     c = 8232 \<or> c = 8233 \<or> c = 8239 \<or> c = 8287 \<or> c = 12288 \<or> c = 65279"

text \<open>The characters that \<open>.\<close> does not match.\<close>

definition isLineTerminator :: "nat \<Rightarrow> bool" where
  "isLineTerminator c \<longleftrightarrow> c = 10 \<or> c = 13 \<or> c = 8232 \<or> c = 8233"

definition trimStart :: "jsstring \<Rightarrow> jsstring" where
  "trimStart s = dropWhile isWhiteSpace s"

definition trimEnd :: "jsstring \<Rightarrow> jsstring" where
  "trimEnd s = rev (dropWhile isWhiteSpace (rev s))"

definition trim :: "jsstring \<Rightarrow> jsstring" where
  "trim s = trimEnd (trimStart s)"

definition startsWith :: "jsstring \<Rightarrow> jsstring \<Rightarrow> bool" where
  "startsWith s p \<longleftrightarrow> take (length p) s = p"

definition endsWith :: "jsstring \<Rightarrow> jsstring \<Rightarrow> bool" where
  "endsWith s p \<longleftrightarrow> length p \<le> length s \<and> drop (length s - length p) s = p"

text \<open>\<open>xs.join(sep)\<close>.\<close>

fun joinWith :: "jsstring \<Rightarrow> jsstring list \<Rightarrow> jsstring" where
  "joinWith sep [] = []"
| "joinWith sep [x] = x"
| "joinWith sep (x # y # ys) = x @ sep @ joinWith sep (y # ys)"

text \<open>\<open>s.repeat(count)\<close> throws a RangeError on a negative count.\<close>

definition repeat :: "jsstring \<Rightarrow> int \<Rightarrow> error + jsstring" where
  "repeat s count = (if count < 0 then Inl RangeError else Inr (concat (replicate (nat count) s)))"

section \<open>Themes\<close>

text \<open>
  A number of the theme format: a double, idealised as a real, or \<open>NaN\<close> (what \<open>parseInt\<close>
  gives on a string with no digits).
\<close>

datatype jsnum = NaN | Num real

record TuiRGBA =
  tui_r :: jsnum
  tui_g :: jsnum
  tui_b :: jsnum
  tui_a :: jsnum

text \<open>
  \<open>MarkdownTheme\<close>: one colour per role. The renderer uses the same shape for its internal
  theme of 0-255 colours, so the record is polymorphic in the colour.
\<close>

record 'c MarkdownTheme =
  text' :: 'c
  textMuted :: 'c
  accent :: 'c
  primary :: 'c
  border :: 'c
  background :: 'c
  backgroundPanel :: 'c
  backgroundElement :: 'c
  markdownText :: 'c
  markdownHeading :: 'c
  markdownLink :: 'c
  markdownLinkText :: 'c
  markdownCode :: 'c
  markdownCodeBlock :: 'c
  markdownBlockQuote :: 'c
  markdownEmph :: 'c
  markdownStrong :: 'c
  markdownListItem :: 'c
  markdownListEnumeration :: 'c
  markdownHorizontalRule :: 'c
  diffAdded :: 'c
  diffRemoved :: 'c

subsection \<open>The theme loader\<close>

text \<open>\<open>ColorValue = string | { dark: string; light: string }\<close>.\<close>

datatype ColorValue = ColorString jsstring | ColorModes (dark: jsstring) (light: jsstring)

datatype Mode = Dark | Light

text \<open>
  A theme JSON file: its \<open>defs\<close> and \<open>theme\<close> objects, each possibly absent. The files
  themselves are not part of the sources at hand, so the table \<open>THEMES\<close> and the imported
  \<open>opencode\<close> theme are parameters of \<open>loadTheme\<close>.
\<close>

record ThemeData =
  td_defs :: "(jsstring \<rightharpoonup> jsstring) option"
  td_theme :: "(jsstring \<rightharpoonup> ColorValue) option"

text \<open>
  The objects that \<open>loadTheme\<close> indexes by name are plain objects: besides their own
  entries they have the members inherited from \<open>Object.prototype\<close>, which are functions
  (and, for \<open>__proto__\<close>, the prototype object itself).
\<close>

definition objectPrototypeKeys :: "jsstring list" where
  "objectPrototypeKeys =
     [ustr ''constructor'', ustr ''__defineGetter__'', ustr ''__defineSetter__'',
      ustr ''hasOwnProperty'', ustr ''__lookupGetter__'', ustr ''__lookupSetter__'',
      ustr ''isPrototypeOf'', ustr ''propertyIsEnumerable'', ustr ''toString'',
      ustr ''valueOf'', ustr ''__proto__'', ustr ''toLocaleString'']"

text \<open>A value that is a string, or an inherited member, which is not.\<close>

datatype jsvalue = JString jsstring | JMember

text \<open>
  \<open>defs[key] || key\<close>: an own entry that is not empty; else an inherited member, which is
  truthy; else the key (an absent or empty entry is falsy).
\<close>

definition defOr :: "(jsstring \<rightharpoonup> jsstring) \<Rightarrow> jsstring \<Rightarrow> jsvalue" where
  "defOr defs key =
     (case defs key of
        Some v \<Rightarrow> JString (if v = [] then key else v)
      | None \<Rightarrow> if key \<in> set objectPrototypeKeys then JMember else JString key)"

definition resolveColor :: "ColorValue \<Rightarrow> (jsstring \<rightharpoonup> jsstring) \<Rightarrow> Mode \<Rightarrow> jsvalue" where
  "resolveColor v defs mode =
     (case v of
        ColorString s \<Rightarrow> defOr defs s
      | ColorModes d l \<Rightarrow> (let colorKey = (if mode = Dark then d else l) in defOr defs colorKey))"

definition isHexDigit :: "nat \<Rightarrow> bool" where
  "isHexDigit c \<longleftrightarrow> (48 \<le> c \<and> c \<le> 57) \<or> (97 \<le> c \<and> c \<le> 102) \<or> (65 \<le> c \<and> c \<le> 70)"

definition hexValue :: "nat \<Rightarrow> nat" where
  "hexValue c = (if c \<le> 57 then c - 48 else if 97 \<le> c then c - 87 else c - 55)"

text \<open>
  \<open>Number.parseInt(s, 16)\<close>: leading white space, a sign, an optional \<open>0x\<close> prefix, then
  the longest run of hexadecimal digits; \<open>None\<close> is \<open>NaN\<close>.
\<close>

definition parseInt16 :: "jsstring \<Rightarrow> int option" where
  "parseInt16 s =
     (let s1 = dropWhile isWhiteSpace s;
          neg = startsWith s1 [45];
          s2 = (if startsWith s1 [45] \<or> startsWith s1 [43] then drop 1 s1 else s1);
          s3 = (if startsWith s2 (ustr ''0x'') \<or> startsWith s2 (ustr ''0X'') then drop 2 s2 else s2);
          ds = takeWhile isHexDigit s3
      in if ds = [] then None
         else (let n = int (foldl (\<lambda>acc c. 16 * acc + hexValue c) 0 ds)
               in Some (if neg then - n else n)))"

definition div255 :: "int option \<Rightarrow> jsnum" where
  "div255 x = (case x of None \<Rightarrow> NaN | Some n \<Rightarrow> Num (real_of_int n / 255))"

text \<open>
  \<open>hexToRGBA\<close>. An inherited member has no method \<open>replace\<close>, so the first statement
  throws a TypeError on it.
\<close>

definition hexToRGBA :: "jsvalue \<Rightarrow> error + TuiRGBA" where
  "hexToRGBA hex =
     (case hex of
        JMember \<Rightarrow> Inl TypeError
      | JString h \<Rightarrow>
          (let cleaned = remove1 35 h;
               r = div255 (parseInt16 (take 2 cleaned));
               g = div255 (parseInt16 (take 2 (drop 2 cleaned)));
               b = div255 (parseInt16 (take 2 (drop 4 cleaned)))
           in Inr \<lparr>tui_r = r, tui_g = g, tui_b = b, tui_a = Num 1\<rparr>))"

definition white :: TuiRGBA where
  "white = \<lparr>tui_r = Num 1, tui_g = Num 1, tui_b = Num 1, tui_a = Num 1\<rparr>"

text \<open>\<open>!value\<close>: an absent role and an empty string are falsy, an object is not.\<close>

definition falsy :: "ColorValue option \<Rightarrow> bool" where
  "falsy v \<longleftrightarrow> (case v of None \<Rightarrow> True | Some (ColorString s) \<Rightarrow> s = [] | Some (ColorModes d l) \<Rightarrow> False)"

text \<open>
  The closure \<open>resolve\<close> of \<open>loadTheme\<close>, with the variables it captures. It is called
  with the names of the roles only, none of which is a member of \<open>Object.prototype\<close>, so
  \<open>theme[key]\<close> is an own entry or undefined.
\<close>

definition resolve ::
  "(jsstring \<rightharpoonup> ColorValue) \<Rightarrow> (jsstring \<rightharpoonup> jsstring) \<Rightarrow> Mode \<Rightarrow> jsstring
     \<Rightarrow> error + TuiRGBA" where
  "resolve theme defs mode key =
     (let v = theme key
      in if falsy v then Inr white
         else (case v of
                 None \<Rightarrow> Inr white
               | Some c \<Rightarrow> (let hex = resolveColor c defs mode in hexToRGBA hex)))"

text \<open>
  \<open>THEMES[themeName || "opencode"] || THEMES.opencode\<close>. A name that \<open>THEMES\<close> inherits
  gives a function or the prototype object, which is truthy and has neither \<open>defs\<close> nor
  \<open>theme\<close>.
\<close>

definition themeDataOf :: "(jsstring \<rightharpoonup> ThemeData) \<Rightarrow> ThemeData \<Rightarrow> jsstring option \<Rightarrow> ThemeData" where
  "themeDataOf THEMES opencode themeName =
     (let name = (case themeName of None \<Rightarrow> ustr ''opencode'' | Some n \<Rightarrow> if n = [] then ustr ''opencode'' else n)
      in case THEMES name of
           Some td \<Rightarrow> td
         | None \<Rightarrow>
             if name \<in> set objectPrototypeKeys then \<lparr>td_defs = None, td_theme = None\<rparr>
             else opencode)"

text \<open>An exception ends the evaluation: the rest runs on the value of what returned.\<close>

definition andThen :: "error + 'a \<Rightarrow> ('a \<Rightarrow> error + 'b) \<Rightarrow> error + 'b" where
  "andThen m f = (case m of Inl e \<Rightarrow> Inl e | Inr x \<Rightarrow> f x)"

text \<open>
  \<open>loadTheme\<close>: the fields of the returned object are evaluated in their order, and the
  first call of \<open>resolve\<close> that throws ends the function.
\<close>

definition loadTheme ::
  "(jsstring \<rightharpoonup> ThemeData) \<Rightarrow> ThemeData \<Rightarrow> jsstring option \<Rightarrow> Mode
     \<Rightarrow> error + TuiRGBA MarkdownTheme" where
  "loadTheme THEMES opencode themeName mode =
     (let themeData = themeDataOf THEMES opencode themeName;
          defs = (case td_defs themeData of None \<Rightarrow> Map.empty | Some d \<Rightarrow> d);
          theme = (case td_theme themeData of None \<Rightarrow> Map.empty | Some t \<Rightarrow> t);
          res = resolve theme defs mode
      in andThen (res (ustr ''text'')) (\<lambda>c1.
         andThen (res (ustr ''textMuted'')) (\<lambda>c2.
         andThen (res (ustr ''accent'')) (\<lambda>c3.
         andThen (res (ustr ''primary'')) (\<lambda>c4.
         andThen (res (ustr ''border'')) (\<lambda>c5.
         andThen (res (ustr ''background'')) (\<lambda>c6.
         andThen (res (ustr ''backgroundPanel'')) (\<lambda>c7.
         andThen (res (ustr ''backgroundElement'')) (\<lambda>c8.
         andThen (res (ustr ''markdownText'')) (\<lambda>c9.
         andThen (res (ustr ''markdownHeading'')) (\<lambda>c10.
         andThen (res (ustr ''markdownLink'')) (\<lambda>c11.
         andThen (res (ustr ''markdownLinkText'')) (\<lambda>c12.
         andThen (res (ustr ''markdownCode'')) (\<lambda>c13.
         andThen (res (ustr ''markdownCodeBlock'')) (\<lambda>c14.
         andThen (res (ustr ''markdownBlockQuote'')) (\<lambda>c15.
         andThen (res (ustr ''markdownEmph'')) (\<lambda>c16.
         andThen (res (ustr ''markdownStrong'')) (\<lambda>c17.
         andThen (res (ustr ''markdownListItem'')) (\<lambda>c18.
         andThen (res (ustr ''markdownListEnumeration'')) (\<lambda>c19.
         andThen (res (ustr ''markdownHorizontalRule'')) (\<lambda>c20.
         andThen (res (ustr ''diffAdded'')) (\<lambda>c21.
         andThen (res (ustr ''diffRemoved'')) (\<lambda>c22.
         Inr \<lparr>text' = c1, textMuted = c2, accent = c3, primary = c4, border = c5,
              background = c6, backgroundPanel = c7, backgroundElement = c8,
              markdownText = c9, markdownHeading = c10, markdownLink = c11,
              markdownLinkText = c12, markdownCode = c13, markdownCodeBlock = c14,
              markdownBlockQuote = c15, markdownEmph = c16, markdownStrong = c17,
              markdownListItem = c18, markdownListEnumeration = c19,
              markdownHorizontalRule = c20, diffAdded = c21,
              diffRemoved = c22\<rparr>)))))))))))))))))))))))"

text \<open>The colour roles: the key of each in the theme file and its field in the result.\<close>

definition roles :: "(jsstring \<times> (TuiRGBA MarkdownTheme \<Rightarrow> TuiRGBA)) list" where
  "roles =
     [(ustr ''text'', text'), (ustr ''textMuted'', textMuted), (ustr ''accent'', accent),
      (ustr ''primary'', primary), (ustr ''border'', border), (ustr ''background'', background),
      (ustr ''backgroundPanel'', backgroundPanel),
      (ustr ''backgroundElement'', backgroundElement),
      (ustr ''markdownText'', markdownText), (ustr ''markdownHeading'', markdownHeading),
      (ustr ''markdownLink'', markdownLink), (ustr ''markdownLinkText'', markdownLinkText),
      (ustr ''markdownCode'', markdownCode), (ustr ''markdownCodeBlock'', markdownCodeBlock),
      (ustr ''markdownBlockQuote'', markdownBlockQuote), (ustr ''markdownEmph'', markdownEmph),
      (ustr ''markdownStrong'', markdownStrong), (ustr ''markdownListItem'', markdownListItem),
      (ustr ''markdownListEnumeration'', markdownListEnumeration),
      (ustr ''markdownHorizontalRule'', markdownHorizontalRule),
      (ustr ''diffAdded'', diffAdded), (ustr ''diffRemoved'', diffRemoved)]"

text \<open>The \<open>theme\<close> object \<open>loadTheme\<close> reads for a theme name.\<close>

definition themeObject ::
  "(jsstring \<rightharpoonup> ThemeData) \<Rightarrow> ThemeData \<Rightarrow> jsstring option \<Rightarrow> (jsstring \<rightharpoonup> ColorValue)" where
  "themeObject THEMES opencode themeName =
     (case td_theme (themeDataOf THEMES opencode themeName) of None \<Rightarrow> Map.empty | Some t \<Rightarrow> t)"

section \<open>The inline tokenizer\<close>

text \<open>
  \<open>addChunk\<close>: the closure each renderer declares over its \<open>chunks\<close> array. An empty text
  adds nothing; a missing colour is \<open>None\<close>.
\<close>

definition addChunk :: "jsstring \<Rightarrow> RGBA option \<Rightarrow> nat \<Rightarrow> TextChunk list \<Rightarrow> TextChunk list" where
  "addChunk t color attrs chunks =
     (if t \<noteq> [] then chunks @ [\<lparr>chunk_text = t, fg = color, bg = None, attributes = attrs\<rparr>]
      else chunks)"

text \<open>
  \<open>(.*?)d\<close> at the head of a string, for a literal \<open>d\<close> that ends its alternative: the
  shortest run of characters other than line terminators after which \<open>d\<close> stands. The result
  is the run and the text after \<open>d\<close>.
\<close>

fun lazyUntil :: "jsstring \<Rightarrow> jsstring \<Rightarrow> (jsstring \<times> jsstring) option" where
  "lazyUntil d [] = (if d = [] then Some ([], []) else None)"
| "lazyUntil d (c # cs) =
     (if startsWith (c # cs) d then Some ([], drop (length d) (c # cs))
      else if isLineTerminator c then None
      else map_option (\<lambda>(m, r). (c # m, r)) (lazyUntil d cs))"

text \<open>\<open>(.+?)d\<close>: the same with a run of at least one character.\<close>

definition lazyUntil1 :: "jsstring \<Rightarrow> jsstring \<Rightarrow> (jsstring \<times> jsstring) option" where
  "lazyUntil1 d s =
     (case s of
        [] \<Rightarrow> None
      | c # cs \<Rightarrow>
          if isLineTerminator c then None
          else map_option (\<lambda>(m, r). (c # m, r)) (lazyUntil d cs))"

text \<open>
  What a match of \<open>inlineRegex\<close> captured, by the alternative that matched: groups 1-2
  (bold and italic), 3 (bold), 4 (italic), 5 (code), 6-7 (link), 8 (strikethrough).
\<close>

datatype InlineMatch =
    BoldItalic jsstring
  | Bold jsstring
  | Italic jsstring
  | InlineCode jsstring
  | Link jsstring jsstring
  | Strikethrough jsstring

text \<open>\<^verbatim>\<open>(\*\*\*|___)(.*?)\1\<close>\<close>

definition altBoldItalic :: "jsstring \<Rightarrow> (InlineMatch \<times> jsstring) option" where
  "altBoldItalic s =
     (if startsWith s (ustr ''***'') then
        map_option (\<lambda>(m, r). (BoldItalic m, r)) (lazyUntil (ustr ''***'') (drop 3 s))
      else if startsWith s (ustr ''___'') then
        map_option (\<lambda>(m, r). (BoldItalic m, r)) (lazyUntil (ustr ''___'') (drop 3 s))
      else None)"

text \<open>\<^verbatim>\<open>\*\*(.+?)\*\*\<close>\<close>

definition altBold :: "jsstring \<Rightarrow> (InlineMatch \<times> jsstring) option" where
  "altBold s =
     (if startsWith s (ustr ''**'') then
        map_option (\<lambda>(m, r). (Bold m, r)) (lazyUntil1 (ustr ''**'') (drop 2 s))
      else None)"

text \<open>\<^verbatim>\<open>\*(.+?)\*\<close>\<close>

definition altItalic :: "jsstring \<Rightarrow> (InlineMatch \<times> jsstring) option" where
  "altItalic s =
     (if startsWith s (ustr ''*'') then
        map_option (\<lambda>(m, r). (Italic m, r)) (lazyUntil1 (ustr ''*'') (drop 1 s))
      else None)"

text \<open>
  A backtick, \<^verbatim>\<open>([^`]+)\<close>, a backtick (code unit 96). The class excludes the closing
  character, so the greedy run is the longest one.
\<close>

definition altCode :: "jsstring \<Rightarrow> (InlineMatch \<times> jsstring) option" where
  "altCode s =
     (if startsWith s [96] then
        (let body = takeWhile (\<lambda>c. c \<noteq> 96) (drop 1 s);
             after = dropWhile (\<lambda>c. c \<noteq> 96) (drop 1 s)
         in if body \<noteq> [] \<and> after \<noteq> [] then Some (InlineCode body, drop 1 after) else None)
      else None)"

text \<open>
  The optional title of a link, \<^verbatim>\<open>\s+"[^"]*"\<close>: the text after it, when it is there.
\<close>

definition linkTitle :: "jsstring \<Rightarrow> jsstring option" where
  "linkTitle s =
     (let ws = takeWhile isWhiteSpace s;
          s1 = dropWhile isWhiteSpace s
      in if ws \<noteq> [] \<and> startsWith s1 [34] then
           (let s2 = dropWhile (\<lambda>c. c \<noteq> 34) (drop 1 s1)
            in if s2 \<noteq> [] then Some (drop 1 s2) else None)
         else None)"

text \<open>\<^verbatim>\<open>\[([^\]]+)\]\(([^)\s]+)(?:\s+"[^"]*")?\)\<close>\<close>

definition altLink :: "jsstring \<Rightarrow> (InlineMatch \<times> jsstring) option" where
  "altLink s =
     (if startsWith s [91] then
        (let linkText = takeWhile (\<lambda>c. c \<noteq> 93) (drop 1 s);
             s1 = dropWhile (\<lambda>c. c \<noteq> 93) (drop 1 s)
         in if linkText \<noteq> [] \<and> startsWith s1 [93, 40] then
              (let url = takeWhile (\<lambda>c. c \<noteq> 41 \<and> \<not> isWhiteSpace c) (drop 2 s1);
                   s2 = dropWhile (\<lambda>c. c \<noteq> 41 \<and> \<not> isWhiteSpace c) (drop 2 s1)
               in if url = [] then None
                  else (case linkTitle s2 of
                          Some s3 \<Rightarrow>
                            if startsWith s3 [41] then Some (Link linkText url, drop 1 s3)
                            else None
                        | None \<Rightarrow>
                            if startsWith s2 [41] then Some (Link linkText url, drop 1 s2)
                            else None))
            else None)
      else None)"

text \<open>\<^verbatim>\<open>~~(.+?)~~\<close>\<close>

definition altStrike :: "jsstring \<Rightarrow> (InlineMatch \<times> jsstring) option" where
  "altStrike s =
     (if startsWith s (ustr ''~~'') then
        map_option (\<lambda>(m, r). (Strikethrough m, r)) (lazyUntil1 (ustr ''~~'') (drop 2 s))
      else None)"

text \<open>The first of two attempts that succeeds.\<close>

definition orElse :: "'a option \<Rightarrow> 'a option \<Rightarrow> 'a option" where
  "orElse x y = (case x of Some v \<Rightarrow> Some v | None \<Rightarrow> y)"

text \<open>\<open>inlineRegex\<close> tried at the head of a string: its alternatives, in their order.\<close>

definition inlineAt :: "jsstring \<Rightarrow> (InlineMatch \<times> jsstring) option" where
  "inlineAt s =
     orElse (altBoldItalic s) (orElse (altBold s) (orElse (altItalic s)
       (orElse (altCode s) (orElse (altLink s) (altStrike s)))))"

text \<open>
  \<open>inlineRegex.exec(text)\<close> from \<open>lastIndex\<close> on: the text skipped before the leftmost match,
  the match, and the text after it.
\<close>

fun inlineExec :: "jsstring \<Rightarrow> (jsstring \<times> InlineMatch \<times> jsstring) option" where
  "inlineExec [] = None"
| "inlineExec (c # cs) =
     (case inlineAt (c # cs) of
        Some (m, rest) \<Rightarrow> Some ([], m, rest)
      | None \<Rightarrow> map_option (\<lambda>(p, m, r). (c # p, m, r)) (inlineExec cs))"

text \<open>
  The nested patterns \<^verbatim>\<open>^(.*)?\*(.+?)\*(.*)$\<close> (with \<open>d\<close> one star) and
  \<^verbatim>\<open>^(.*)?\*\*(.+?)\*\*(.*)$\<close> (two stars): groups 1, 2 and 3. The first group is
  greedy, so the longest prefix after which the rest matches wins; an unmatched first group
  counts as empty (both are falsy where the group is read).
\<close>

definition nestedHere :: "jsstring \<Rightarrow> jsstring \<Rightarrow> (jsstring \<times> jsstring \<times> jsstring) option" where
  "nestedHere d s =
     (if startsWith s d then
        (case lazyUntil1 d (drop (length d) s) of
           Some (m, r) \<Rightarrow> if list_all (\<lambda>c. \<not> isLineTerminator c) r then Some ([], m, r) else None
         | None \<Rightarrow> None)
      else None)"

fun nestedSplit :: "jsstring \<Rightarrow> jsstring \<Rightarrow> (jsstring \<times> jsstring \<times> jsstring) option" where
  "nestedSplit d [] = nestedHere d []"
| "nestedSplit d (c # cs) =
     (case (if isLineTerminator c then None else nestedSplit d cs) of
        Some (p, m, r) \<Rightarrow> Some (c # p, m, r)
      | None \<Rightarrow> nestedHere d (c # cs))"

text \<open>The branch of the loop body that a match selects.\<close>

definition emitMatch :: "RGBA MarkdownTheme \<Rightarrow> InlineMatch \<Rightarrow> TextChunk list \<Rightarrow> TextChunk list" where
  "emitMatch theme m chunks =
     (case m of
        BoldItalic content \<Rightarrow>
          addChunk content (Some (markdownStrong theme)) (Attr_BOLD OR Attr_ITALIC) chunks
      | Bold boldContent \<Rightarrow>
          (case nestedSplit (ustr ''*'') boldContent of
             Some (n1, n2, n3) \<Rightarrow>
               addChunk n3 (Some (markdownStrong theme)) Attr_BOLD
                 (addChunk n2 (Some (markdownStrong theme)) (Attr_BOLD OR Attr_ITALIC)
                   (addChunk n1 (Some (markdownStrong theme)) Attr_BOLD chunks))
           | None \<Rightarrow> addChunk boldContent (Some (markdownStrong theme)) Attr_BOLD chunks)
      | Italic italicContent \<Rightarrow>
          (case nestedSplit (ustr ''**'') italicContent of
             Some (n1, n2, n3) \<Rightarrow>
               addChunk n3 (Some (markdownEmph theme)) Attr_ITALIC
                 (addChunk n2 (Some (markdownStrong theme)) (Attr_BOLD OR Attr_ITALIC)
                   (addChunk n1 (Some (markdownEmph theme)) Attr_ITALIC chunks))
           | None \<Rightarrow> addChunk italicContent (Some (markdownEmph theme)) Attr_ITALIC chunks)
      | InlineCode code \<Rightarrow> addChunk code (Some (markdownCode theme)) 0 chunks
      | Link linkText url \<Rightarrow>
          addChunk (ustr '')'') (Some (markdownText theme)) 0
            (addChunk url (Some (markdownLink theme)) Attr_UNDERLINE
              (addChunk (ustr '' ('') (Some (markdownText theme)) 0
                (addChunk linkText (Some (markdownLinkText theme)) Attr_UNDERLINE chunks)))
      | Strikethrough content \<Rightarrow>
          addChunk content (Some (textMuted theme)) Attr_STRIKETHROUGH chunks)"

lemma startsWith_length: "startsWith s p \<Longrightarrow> length p \<le> length s"
  unfolding startsWith_def by (metis length_take min.cobounded1)

lemma lazyUntil_length: "lazyUntil d s = Some (m, r) \<Longrightarrow> length r \<le> length s"
  by (induction s arbitrary: m) (auto split: if_splits)

lemma lazyUntil1_length: "lazyUntil1 d s = Some (m, r) \<Longrightarrow> length r < length s"
  by (auto simp: lazyUntil1_def split: list.splits if_splits dest: lazyUntil_length)

lemma inlineAt_length: "inlineAt s = Some (m, r) \<Longrightarrow> length r < length s"
proof -
  assume h: "inlineAt s = Some (m, r)"
  have d: "\<And>P xs. length (dropWhile P xs) \<le> length xs" by (rule length_dropWhile_le)
  have a1: "altBoldItalic s = Some (m, r) \<Longrightarrow> length r < length s"
    by (auto simp: altBoldItalic_def ustr_def split: if_splits
        dest!: lazyUntil_length startsWith_length)
  have a2: "altBold s = Some (m, r) \<Longrightarrow> length r < length s"
    by (auto simp: altBold_def split: if_splits dest!: lazyUntil1_length)
  have a3: "altItalic s = Some (m, r) \<Longrightarrow> length r < length s"
    by (auto simp: altItalic_def split: if_splits dest!: lazyUntil1_length)
  have a4: "altCode s = Some (m, r) \<Longrightarrow> length r < length s"
    using d [of "\<lambda>c. c \<noteq> 96" "drop 1 s"]
    by (auto simp: altCode_def Let_def split: if_splits dest!: startsWith_length)
  have a6: "altStrike s = Some (m, r) \<Longrightarrow> length r < length s"
    by (auto simp: altStrike_def split: if_splits dest!: lazyUntil1_length)
  have a5: "altLink s = Some (m, r) \<Longrightarrow> length r < length s"
  proof -
    assume l: "altLink s = Some (m, r)"
    let ?s1 = "dropWhile (\<lambda>c. c \<noteq> 93) (drop 1 s)"
    let ?s2 = "dropWhile (\<lambda>c. c \<noteq> 41 \<and> \<not> isWhiteSpace c) (drop 2 ?s1)"
    have l2: "length ?s2 \<le> length s"
      using d [of "\<lambda>c. c \<noteq> 93" "drop 1 s"] d [of "\<lambda>c. c \<noteq> 41 \<and> \<not> isWhiteSpace c" "drop 2 ?s1"]
      by simp
    have t: "\<And>s3. linkTitle ?s2 = Some s3 \<Longrightarrow> length s3 \<le> length ?s2"
    proof -
      fix s3 assume "linkTitle ?s2 = Some s3"
      then show "length s3 \<le> length ?s2"
        using d [of isWhiteSpace ?s2] d [of "\<lambda>c. c \<noteq> 34" "drop 1 (dropWhile isWhiteSpace ?s2)"]
        by (auto simp: linkTitle_def Let_def split: if_splits)
    qed
    from l show ?thesis
      using l2 t
      by (auto simp: altLink_def Let_def split: if_splits option.splits
          dest!: t startsWith_length)
  qed
  from h a1 a2 a3 a4 a5 a6 show ?thesis
    by (auto simp: inlineAt_def orElse_def split: option.splits)
qed

lemma inlineExec_length: "inlineExec s = Some (p, m, r) \<Longrightarrow> length r < length s"
proof (induction s arbitrary: p)
  case Nil
  then show ?case by simp
next
  case (Cons c cs)
  show ?case
  proof (cases "inlineAt (c # cs)")
    case None
    with Cons.prems obtain p' where "inlineExec cs = Some (p', m, r)" by auto
    from Cons.IH [OF this] show ?thesis by simp
  next
    case (Some mr)
    with Cons.prems have "inlineAt (c # cs) = Some (m, r)" by (cases mr) auto
    then show ?thesis by (rule inlineAt_length)
  qed
qed

text \<open>
  \<open>renderInlineThemedWithDefault\<close>: the \<open>while\<close> loop over the matches and the code after
  it, on the text from \<open>lastIndex\<close> on.
\<close>

function renderInlineThemedWithDefault ::
  "jsstring \<Rightarrow> RGBA MarkdownTheme \<Rightarrow> TextChunk list \<Rightarrow> RGBA \<Rightarrow> nat \<Rightarrow> TextChunk list" where
  "renderInlineThemedWithDefault t theme chunks defaultColor defaultAttrs =
     (case inlineExec t of
        None \<Rightarrow> addChunk t (Some defaultColor) defaultAttrs chunks
      | Some (skipped, m, rest) \<Rightarrow>
          renderInlineThemedWithDefault rest theme
            (emitMatch theme m (addChunk skipped (Some defaultColor) defaultAttrs chunks))
            defaultColor defaultAttrs)"
  by pat_completeness auto
termination
  by (relation "measure (\<lambda>(t, theme, chunks, defaultColor, defaultAttrs). length t)")
    (auto dest: inlineExec_length)

declare renderInlineThemedWithDefault.simps [simp del]

definition renderInlineThemed :: "jsstring \<Rightarrow> RGBA MarkdownTheme \<Rightarrow> TextChunk list \<Rightarrow> TextChunk list" where
  "renderInlineThemed t theme chunks =
     renderInlineThemedWithDefault t theme chunks (markdownText theme) 0"

section \<open>Table layout\<close>

text \<open>The box-drawing characters of \<open>Box\<close> that the renderers use.\<close>

definition Box_topLeft :: nat where "Box_topLeft = 9484"
definition Box_topRight :: nat where "Box_topRight = 9488"
definition Box_bottomLeft :: nat where "Box_bottomLeft = 9492"
definition Box_bottomRight :: nat where "Box_bottomRight = 9496"
definition Box_horizontal :: nat where "Box_horizontal = 9472"
definition Box_vertical :: nat where "Box_vertical = 9474"
definition Box_leftT :: nat where "Box_leftT = 9500"
definition Box_rightT :: nat where "Box_rightT = 9508"
definition Box_topT :: nat where "Box_topT = 9516"
definition Box_bottomT :: nat where "Box_bottomT = 9524"
definition Box_cross :: nat where "Box_cross = 9532"


text \<open>\<open>xs[i] ?? d\<close>.\<close>

definition nthOr :: "'a \<Rightarrow> 'a list \<Rightarrow> nat \<Rightarrow> 'a" where
  "nthOr d xs i = (if i < length xs then xs ! i else d)"

subsection \<open>Rows\<close>

text \<open>
  The loop of \<open>parseRow\<close> on the row from index \<open>i\<close> on, with the cell being read and the
  cells read so far; at the end the last cell is pushed.
\<close>

fun parseCells :: "jsstring \<Rightarrow> jsstring \<Rightarrow> jsstring list \<Rightarrow> jsstring list" where
  "parseCells [] cell cells = cells @ [cell]"
| "parseCells [c] cell cells =
     (if c = 124 then parseCells [] [] (cells @ [cell])
      else parseCells [] (cell @ [c]) cells)"
| "parseCells (c # n # cs) cell cells =
     (if c = 92 \<and> n = 124 then parseCells cs (cell @ [124]) cells
      else if c = 124 then parseCells (n # cs) [] (cells @ [cell])
      else parseCells (n # cs) (cell @ [c]) cells)"

text \<open>\<open>cells.slice(1, -1).map((c) => c.trim())\<close>.\<close>

definition parseRow :: "jsstring \<Rightarrow> jsstring list" where
  "parseRow row = map trim (butlast (tl (parseCells row [] [])))"

text \<open>
  \<^verbatim>\<open>/^\|[\s\-:|\s]+\|$/\<close>: the class holds the pipe, so the line matches when it starts
  and ends with a pipe and has at least one character in between, all of the class.
\<close>

definition isSeparatorChar :: "nat \<Rightarrow> bool" where
  "isSeparatorChar c \<longleftrightarrow> isWhiteSpace c \<or> c = 45 \<or> c = 58 \<or> c = 124"

definition isSeparatorLine :: "jsstring \<Rightarrow> bool" where
  "isSeparatorLine line \<longleftrightarrow>
     3 \<le> length line \<and> hd line = 124 \<and> last line = 124 \<and>
     list_all isSeparatorChar (butlast (tl line))"

subsection \<open>Visible length\<close>

text \<open>
  \<open>s.replace(/D(.+?)D/g, "$1")\<close> for a literal delimiter \<open>D\<close>: one pass from the left, the
  replaced text is not scanned again.
\<close>

function replaceDelim :: "jsstring \<Rightarrow> jsstring \<Rightarrow> jsstring" where
  "replaceDelim d [] = []"
| "replaceDelim d (c # cs) =
     (case (if startsWith (c # cs) d then lazyUntil1 d (drop (length d) (c # cs)) else None) of
        Some (m, rest) \<Rightarrow> m @ replaceDelim d rest
      | None \<Rightarrow> c # replaceDelim d cs)"
  by pat_completeness auto
termination
  by (relation "measure (\<lambda>(d, s). length s)")
    (auto split: if_splits dest!: lazyUntil1_length)

declare replaceDelim.simps [simp del]

text \<open>The same for a backtick, \<^verbatim>\<open>([^`]+)\<close>, a backtick.\<close>

function replaceCode :: "jsstring \<Rightarrow> jsstring" where
  "replaceCode [] = []"
| "replaceCode (c # cs) =
     (case altCode (c # cs) of
        Some (InlineCode body, rest) \<Rightarrow> body @ replaceCode rest
      | _ \<Rightarrow> c # replaceCode cs)"
  by pat_completeness auto

lemma altCode_length: "altCode s = Some (m, r) \<Longrightarrow> length r < length s"
  using length_dropWhile_le [of "\<lambda>c. c \<noteq> 96" "drop 1 s"]
  by (auto simp: altCode_def Let_def split: if_splits dest!: startsWith_length)

termination replaceCode
  by (relation "measure length") (auto dest!: altCode_length)

declare replaceCode.simps [simp del]

text \<open>
  \<^verbatim>\<open>\[([^\]]+)\]\(([^)]+)\)\<close> at the head of a string: groups 1 and 2 and the text after
  the match.
\<close>

definition plainLink :: "jsstring \<Rightarrow> (jsstring \<times> jsstring \<times> jsstring) option" where
  "plainLink s =
     (if startsWith s [91] then
        (let linkText = takeWhile (\<lambda>c. c \<noteq> 93) (drop 1 s);
             s1 = dropWhile (\<lambda>c. c \<noteq> 93) (drop 1 s)
         in if linkText \<noteq> [] \<and> startsWith s1 [93, 40] then
              (let url = takeWhile (\<lambda>c. c \<noteq> 41) (drop 2 s1);
                   s2 = dropWhile (\<lambda>c. c \<noteq> 41) (drop 2 s1)
               in if url \<noteq> [] \<and> s2 \<noteq> [] then Some (linkText, url, drop 1 s2) else None)
            else None)
      else None)"

lemma plainLink_length: "plainLink s = Some (t, u, r) \<Longrightarrow> length r < length s"
  using length_dropWhile_le [of "\<lambda>c. c \<noteq> 93" "drop 1 s"]
    length_dropWhile_le [of "\<lambda>c. c \<noteq> 41" "drop 2 (dropWhile (\<lambda>c. c \<noteq> 93) (drop 1 s))"]
  by (auto simp: plainLink_def Let_def split: if_splits dest!: startsWith_length)

text \<open>\<open>.replace(/\[([^\]]+)\]\(([^)]+)\)/g, "$1 ($2)")\<close>\<close>

function replaceLinks :: "jsstring \<Rightarrow> jsstring" where
  "replaceLinks [] = []"
| "replaceLinks (c # cs) =
     (case plainLink (c # cs) of
        Some (t, u, rest) \<Rightarrow> t @ ustr '' ('' @ u @ ustr '')'' @ replaceLinks rest
      | None \<Rightarrow> c # replaceLinks cs)"
  by pat_completeness auto
termination
  by (relation "measure length") (auto dest!: plainLink_length)

declare replaceLinks.simps [simp del]

text \<open>
  \<open>visibleLength\<close>: the width of the text with its markdown syntax removed.
  \<open>Bun.stringWidth\<close> belongs to the runtime, not to the repository: it is the parameter
  \<open>sw\<close> of everything that measures.
\<close>

definition stripMarkdown :: "jsstring \<Rightarrow> jsstring" where
  "stripMarkdown t =
     replaceLinks (replaceDelim (ustr ''~~'') (replaceCode (replaceDelim (ustr ''*'')
       (replaceDelim (ustr ''**'') (replaceDelim (ustr ''***'') t)))))"

definition visibleLength :: "(jsstring \<Rightarrow> nat) \<Rightarrow> jsstring \<Rightarrow> nat" where
  "visibleLength sw t = sw (stripMarkdown t)"

subsection \<open>Word wrap\<close>

text \<open>
  The tokenizing loop of \<open>wordWrap\<close> on the text from index \<open>i\<close> on, with its variables
  \<open>current\<close>, \<open>inBacktick\<close> and \<open>tokens\<close>; at the end the last token is pushed.
\<close>

fun wrapTokens :: "jsstring \<Rightarrow> jsstring \<Rightarrow> bool \<Rightarrow> jsstring list \<Rightarrow> jsstring list" where
  "wrapTokens [] current inBacktick tokens =
     (if current \<noteq> [] then tokens @ [current] else tokens)"
| "wrapTokens (c # cs) current inBacktick tokens =
     (if c = 96 then wrapTokens cs (current @ [c]) (\<not> inBacktick) tokens
      else if c = 32 \<and> \<not> inBacktick then
        wrapTokens cs [] inBacktick
          ((if current \<noteq> [] then tokens @ [current] else tokens) @ [[32]])
      else wrapTokens cs (current @ [c]) inBacktick tokens)"

text \<open>\<open>isQuoted ? "`" + part + "`" : part\<close>\<close>

definition quotePart :: "bool \<Rightarrow> jsstring \<Rightarrow> jsstring" where
  "quotePart isQuoted part = (if isQuoted then [96] @ part @ [96] else part)"

text \<open>
  The loop of \<open>breakLongToken\<close> on \<open>inner\<close> from index \<open>i\<close> on; \<open>cs \<noteq> []\<close> is
  \<open>i < inner.length - 1\<close>. The comparison is on integers: \<open>effectiveMax - 2\<close> can be negative.
\<close>

fun breakParts :: "bool \<Rightarrow> int \<Rightarrow> jsstring \<Rightarrow> jsstring \<Rightarrow> jsstring list \<Rightarrow> jsstring list" where
  "breakParts isQuoted maxLen [] part parts =
     (if part \<noteq> [] then parts @ [quotePart isQuoted part] else parts)"
| "breakParts isQuoted maxLen (c # cs) part parts =
     (let part' = part @ [c];
          effectiveMax = (if isQuoted then maxLen - 2 else maxLen)
      in if int (length part') \<ge> effectiveMax - 2 \<and> (c = 46 \<or> c = 45) \<and> cs \<noteq> [] then
           breakParts isQuoted maxLen cs [] (parts @ [quotePart isQuoted part'])
         else breakParts isQuoted maxLen cs part' parts)"

definition breakLongToken :: "jsstring \<Rightarrow> nat \<Rightarrow> jsstring list" where
  "breakLongToken token maxLen =
     (if length token \<le> maxLen then [token]
      else (let isQuoted = startsWith token [96] \<and> endsWith token [96];
                inner = (if isQuoted then butlast (tl token) else token)
            in breakParts isQuoted (int maxLen) inner [] []))"

text \<open>
  The \<open>for (const part of breakLongToken(token, width))\<close> loop, which stands twice in
  \<open>wordWrap\<close>: one turn, on the pair of \<open>lines\<close> and \<open>line\<close>.
\<close>

definition placePart ::
  "(jsstring \<Rightarrow> nat) \<Rightarrow> nat \<Rightarrow> jsstring list \<times> jsstring \<Rightarrow> jsstring \<Rightarrow> jsstring list \<times> jsstring" where
  "placePart sw width st part =
     (case st of (lines, line) \<Rightarrow>
        if visibleLength sw line = 0 then (lines, part)
        else if visibleLength sw (line @ part) \<le> width then (lines, line @ part)
        else (lines @ [trimEnd line], part))"

text \<open>One turn of the \<open>for (const token of tokens)\<close> loop.\<close>

definition wrapStep ::
  "(jsstring \<Rightarrow> nat) \<Rightarrow> nat \<Rightarrow> jsstring list \<times> jsstring \<Rightarrow> jsstring \<Rightarrow> jsstring list \<times> jsstring" where
  "wrapStep sw width st token =
     (case st of (lines, line) \<Rightarrow>
        if token = [32] then
          (if visibleLength sw line > 0 \<and> visibleLength sw line < width then (lines, line @ [32])
           else (lines, line))
        else if visibleLength sw line = 0 then
          (if visibleLength sw token > width then
             foldl (placePart sw width) (lines, line) (breakLongToken token width)
           else (lines, token))
        else if visibleLength sw (line @ token) \<le> width then (lines, line @ token)
        else
          (if visibleLength sw token > width then
             foldl (placePart sw width) (lines @ [trimEnd line], line) (breakLongToken token width)
           else (lines @ [trimEnd line], token)))"

definition wordWrap :: "(jsstring \<Rightarrow> nat) \<Rightarrow> jsstring \<Rightarrow> nat \<Rightarrow> jsstring list" where
  "wordWrap sw t width =
     (if visibleLength sw t \<le> width then [t]
      else (let tokens = wrapTokens t [] False [];
                st = foldl (wrapStep sw width) ([], []) tokens;
                lines = (if snd st \<noteq> [] then fst st @ [trimEnd (snd st)] else fst st)
            in if lines \<noteq> [] then lines else [[]]))"

subsection \<open>Column widths\<close>

text \<open>\<open>Math.max(...xs, 0)\<close> on widths, which are not negative.\<close>

definition maxOf :: "nat list \<Rightarrow> nat" where
  "maxOf xs = foldr max xs 0"

definition naturalWidths :: "(jsstring \<Rightarrow> nat) \<Rightarrow> jsstring list \<Rightarrow> jsstring list list \<Rightarrow> nat list" where
  "naturalWidths sw headerRow dataRows =
     map (\<lambda>i. let dataMax = maxOf (map (\<lambda>r. visibleLength sw (nthOr [] r i)) dataRows)
              in max (visibleLength sw (headerRow ! i)) dataMax)
       [0..<length headerRow]"

text \<open>\<open>colWidths.reduce((a, b) => a + b + 3, 1)\<close>\<close>

definition calcWidth :: "nat list \<Rightarrow> nat" where
  "calcWidth colWidths = foldl (\<lambda>a b. a + b + 3) 1 colWidths"

text \<open>\<open>xs.indexOf(v)\<close> for a value that occurs in \<open>xs\<close>.\<close>

definition indexOf :: "nat list \<Rightarrow> nat \<Rightarrow> nat" where
  "indexOf xs v = length (takeWhile (\<lambda>x. x \<noteq> v) xs)"

lemma maxOf_ge: "x \<in> set xs \<Longrightarrow> x \<le> maxOf xs"
  unfolding maxOf_def by (induction xs) auto

lemma maxOf_mem: "xs \<noteq> [] \<Longrightarrow> maxOf xs \<in> set xs"
  unfolding maxOf_def
proof (induction xs)
  case (Cons x xs)
  show ?case
  proof (cases "xs = []")
    case True
    then show ?thesis by simp
  next
    case False
    with Cons.IH have m: "foldr max xs 0 \<in> set xs" by simp
    have "max x (foldr max xs 0) = x \<or> max x (foldr max xs 0) = foldr max xs 0"
      by (simp add: max_def)
    with m show ?thesis by auto
  qed
qed simp

lemma indexOf_less: "v \<in> set xs \<Longrightarrow> indexOf xs v < length xs"
  unfolding indexOf_def by (induction xs) auto

lemma indexOf_nth: "v \<in> set xs \<Longrightarrow> xs ! indexOf xs v = v"
  unfolding indexOf_def by (induction xs) auto

lemma shrink_step_decreases:
  assumes "list_ex (\<lambda>w. w > 10) colWidths"
  shows "sum_list (colWidths[indexOf colWidths (maxOf colWidths)
           := max 10 (colWidths ! indexOf colWidths (maxOf colWidths) - 1)]) < sum_list colWidths"
proof -
  let ?i = "indexOf colWidths (maxOf colWidths)"
  from assms obtain w where w: "w \<in> set colWidths" "w > 10" by (auto simp: list_ex_iff)
  then have ne: "colWidths \<noteq> []" by auto
  have i: "?i < length colWidths" using maxOf_mem [OF ne] by (rule indexOf_less)
  have v: "colWidths ! ?i = maxOf colWidths" using maxOf_mem [OF ne] by (rule indexOf_nth)
  have big: "colWidths ! ?i > 10" using maxOf_ge [OF w(1)] w(2) v by simp
  have "sum_list (colWidths[?i := max 10 (colWidths ! ?i - 1)])
      = sum_list colWidths + max 10 (colWidths ! ?i - 1) - colWidths ! ?i"
    using i by (rule sum_list_update)
  moreover have "colWidths ! ?i \<le> sum_list colWidths"
    using i by (simp add: member_le_sum_list)
  ultimately show ?thesis using big by (simp add: max_def)
qed

text \<open>
  The body of the \<open>while\<close> loop that shrinks the columns: \<open>maxIdx\<close> is the index of the
  first widest column.
\<close>

definition shrinkStep :: "nat list \<Rightarrow> nat list" where
  "shrinkStep colWidths =
     (let maxIdx = indexOf colWidths (maxOf colWidths)
      in colWidths[maxIdx := max 10 (colWidths ! maxIdx - 1)])"

text \<open>The loop condition and the loop; \<open>maxWidth\<close> is \<open>cols - 4\<close>.\<close>

definition shrinkMore :: "int \<Rightarrow> nat list \<Rightarrow> bool" where
  "shrinkMore maxWidth colWidths \<longleftrightarrow>
     int (calcWidth colWidths) > maxWidth \<and> list_ex (\<lambda>w. w > 10) colWidths"

function shrinkColumns :: "int \<Rightarrow> nat list \<Rightarrow> nat list" where
  "shrinkColumns maxWidth colWidths =
     (if shrinkMore maxWidth colWidths then shrinkColumns maxWidth (shrinkStep colWidths)
      else colWidths)"
  by pat_completeness auto
termination
  by (relation "measure (\<lambda>(maxWidth, colWidths). sum_list colWidths)")
    (auto simp: shrinkMore_def shrinkStep_def Let_def dest: shrink_step_decreases)

declare shrinkColumns.simps [simp del]

subsection \<open>Emission of a table\<close>

text \<open>A border line: corner, the columns' rules joined by a junction, corner, newline.\<close>

definition borderLine :: "nat \<Rightarrow> nat \<Rightarrow> nat \<Rightarrow> nat list \<Rightarrow> jsstring" where
  "borderLine left mid right colWidths =
     [left] @ joinWith [mid] (map (\<lambda>w. replicate (w + 2) Box_horizontal) colWidths)
       @ [right] @ [10]"

text \<open>
  One turn of \<open>headerRow.forEach\<close>. \<open>colWidths\<close> has an entry for every header cell (it is
  mapped from \<open>headerRow\<close> and the shrinking keeps its length).
\<close>

definition headerCell ::
  "(jsstring \<Rightarrow> nat) \<Rightarrow> RGBA MarkdownTheme \<Rightarrow> nat list \<Rightarrow> TextChunk list \<Rightarrow> jsstring \<times> nat
     \<Rightarrow> TextChunk list" where
  "headerCell sw theme colWidths chunks ci =
     (case ci of (cell, i) \<Rightarrow>
        (let chunks1 = addChunk [32] (Some (border theme)) 0 chunks;
             cellWidth = sw cell;
             targetWidth = colWidths ! i;
             chunks2 =
               (if cellWidth \<le> targetWidth then
                  addChunk (cell @ replicate (targetWidth - cellWidth) 32)
                    (Some (markdownHeading theme)) Attr_BOLD chunks1
                else
                  addChunk (take targetWidth cell) (Some (markdownHeading theme)) Attr_BOLD chunks1)
         in addChunk [32, Box_vertical] (Some (border theme)) 0 chunks2))"

text \<open>\<open>xs.forEach((x, i) => ...)\<close> and \<open>xs.map((x, i) => ...)\<close> see each element with its index.\<close>

definition indexed :: "'a list \<Rightarrow> ('a \<times> nat) list" where
  "indexed xs = zip xs [0..<length xs]"

definition renderCell ::
  "(jsstring \<Rightarrow> nat) \<Rightarrow> RGBA MarkdownTheme \<Rightarrow> jsstring \<Rightarrow> nat \<Rightarrow> bool \<Rightarrow> TextChunk list
     \<Rightarrow> TextChunk list" where
  "renderCell sw theme t width isHeader chunks =
     (if t = [] then addChunk (replicate width 32) (Some (markdownText theme)) 0 chunks
      else
        (let cellChunks =
               (if isHeader then
                  [\<lparr>chunk_text = t, fg = Some (markdownHeading theme), bg = None,
                    attributes = Attr_BOLD\<rparr>]
                else renderInlineThemed t theme []);
             len = sum_list (map (\<lambda>c. sw (chunk_text c)) cellChunks);
             chunks1 = chunks @ cellChunks
         in if len < width then
              addChunk (replicate (width - len) 32) (Some (markdownText theme)) 0 chunks1
            else chunks1))"

text \<open>One turn of the \<open>for (let lineIdx = 0; lineIdx < maxLines; lineIdx++)\<close> loop.\<close>

definition renderDataLine ::
  "(jsstring \<Rightarrow> nat) \<Rightarrow> RGBA MarkdownTheme \<Rightarrow> nat list \<Rightarrow> jsstring list list \<Rightarrow> TextChunk list
     \<Rightarrow> nat \<Rightarrow> TextChunk list" where
  "renderDataLine sw theme colWidths wrappedCells chunks lineIdx =
     addChunk [10] None 0
       (foldl
          (\<lambda>ch li. case li of (lines, i) \<Rightarrow>
             addChunk [32, Box_vertical] (Some (border theme)) 0
               (renderCell sw theme (nthOr [] lines lineIdx) (nthOr 0 colWidths i) False
                 (addChunk [32] (Some (border theme)) 0 ch)))
          (addChunk [Box_vertical] (Some (border theme)) 0 chunks)
          (indexed wrappedCells))"

text \<open>
  One turn of \<open>dataRows.forEach\<close>. \<open>Math.max\<close> of no arguments is \<open>-Infinity\<close>, and the loop
  over the lines then does not run, as with 0.
\<close>

definition renderDataRow ::
  "(jsstring \<Rightarrow> nat) \<Rightarrow> RGBA MarkdownTheme \<Rightarrow> nat list \<Rightarrow> TextChunk list \<Rightarrow> jsstring list
     \<Rightarrow> TextChunk list" where
  "renderDataRow sw theme colWidths chunks row =
     (let wrappedCells = map (\<lambda>ci. case ci of (cell, i) \<Rightarrow> wordWrap sw cell (nthOr 10 colWidths i))
                           (indexed row);
          maxLines = maxOf (map length wrappedCells)
      in foldl (renderDataLine sw theme colWidths wrappedCells) chunks [0..<maxLines])"

text \<open>The header row and the data rows that \<open>renderTableThemed\<close> parses from its lines.\<close>

definition tableHeader :: "jsstring list \<Rightarrow> jsstring list" where
  "tableHeader tableLines = parseRow (tableLines ! 0)"

definition tableData :: "jsstring list \<Rightarrow> jsstring list list" where
  "tableData tableLines = map parseRow (filter (\<lambda>line. \<not> isSeparatorLine line) (drop 1 tableLines))"

text \<open>The final column widths.\<close>

definition tableWidths :: "(jsstring \<Rightarrow> nat) \<Rightarrow> jsstring list \<Rightarrow> int \<Rightarrow> nat list" where
  "tableWidths sw tableLines cols =
     shrinkColumns (cols - 4) (naturalWidths sw (tableHeader tableLines) (tableData tableLines))"

definition renderTableThemed ::
  "(jsstring \<Rightarrow> nat) \<Rightarrow> jsstring list \<Rightarrow> RGBA MarkdownTheme \<Rightarrow> TextChunk list \<Rightarrow> int
     \<Rightarrow> TextChunk list" where
  "renderTableThemed sw tableLines theme chunks cols =
     (if length tableLines < 2 then chunks
      else
        (let headerRow = tableHeader tableLines;
             dataRows = tableData tableLines;
             colWidths = tableWidths sw tableLines cols;
             chunks1 = addChunk (borderLine Box_topLeft Box_topT Box_topRight colWidths)
                         (Some (border theme)) 0 chunks;
             chunks2 = addChunk [Box_vertical] (Some (border theme)) 0 chunks1;
             chunks3 = foldl (headerCell sw theme colWidths) chunks2 (indexed headerRow);
             chunks4 = addChunk [10] None 0 chunks3;
             chunks5 = addChunk (borderLine Box_leftT Box_cross Box_rightT colWidths)
                         (Some (border theme)) 0 chunks4;
             chunks6 = foldl (renderDataRow sw theme colWidths) chunks5 dataRows
         in addChunk (borderLine Box_bottomLeft Box_bottomT Box_bottomRight colWidths)
              (Some (border theme)) 0 chunks6))"

section \<open>The block renderer\<close>

text \<open>\<open>Math.round(x * 255)\<close> on a number of the theme format.\<close>

definition round255 :: "jsnum \<Rightarrow> jsint" where
  "round255 x = (case x of NaN \<Rightarrow> JNaN | Num v \<Rightarrow> JInt (round (v * 255)))"

definition toIntRGBA :: "TuiRGBA \<Rightarrow> RGBA" where
  "toIntRGBA rgba =
     \<lparr>rgba_r = round255 (tui_r rgba), rgba_g = round255 (tui_g rgba),
      rgba_b = round255 (tui_b rgba), rgba_a = round255 (tui_a rgba)\<rparr>"

text \<open>The internal theme that \<open>renderMarkdownThemedStyled\<close> builds from its argument.\<close>

definition internalTheme :: "TuiRGBA MarkdownTheme \<Rightarrow> RGBA MarkdownTheme" where
  "internalTheme tuiTheme =
     \<lparr>text' = toIntRGBA (text' tuiTheme),
      textMuted = toIntRGBA (textMuted tuiTheme),
      accent = toIntRGBA (accent tuiTheme),
      primary = toIntRGBA (primary tuiTheme),
      border = toIntRGBA (border tuiTheme),
      background = toIntRGBA (background tuiTheme),
      backgroundPanel = toIntRGBA (backgroundPanel tuiTheme),
      backgroundElement = toIntRGBA (backgroundElement tuiTheme),
      markdownText = toIntRGBA (markdownText tuiTheme),
      markdownHeading = toIntRGBA (markdownHeading tuiTheme),
      markdownLink = toIntRGBA (markdownLink tuiTheme),
      markdownLinkText = toIntRGBA (markdownLinkText tuiTheme),
      markdownCode = toIntRGBA (markdownCode tuiTheme),
      markdownCodeBlock = toIntRGBA (markdownCodeBlock tuiTheme),
      markdownBlockQuote = toIntRGBA (markdownBlockQuote tuiTheme),
      markdownEmph = toIntRGBA (markdownEmph tuiTheme),
      markdownStrong = toIntRGBA (markdownStrong tuiTheme),
      markdownListItem = toIntRGBA (markdownListItem tuiTheme),
      markdownListEnumeration = toIntRGBA (markdownListEnumeration tuiTheme),
      markdownHorizontalRule = toIntRGBA (markdownHorizontalRule tuiTheme),
      diffAdded = toIntRGBA (diffAdded tuiTheme),
      diffRemoved = toIntRGBA (diffRemoved tuiTheme)\<rparr>"

definition addChunkWithBg ::
  "jsstring \<Rightarrow> RGBA option \<Rightarrow> RGBA option \<Rightarrow> nat \<Rightarrow> TextChunk list \<Rightarrow> TextChunk list" where
  "addChunkWithBg t fgc bgc attrs chunks =
     (if t \<noteq> [] then chunks @ [\<lparr>chunk_text = t, fg = fgc, bg = bgc, attributes = attrs\<rparr>]
      else chunks)"

subsection \<open>The line patterns\<close>

text \<open>
  \<^verbatim>\<open>\s+(.*)$\<close> at the head of a string: group 1. The greedy white space takes its longest
  run; what follows has to be free of line terminators up to the end, and taking less
  white space would not help.
\<close>

definition spaceThenRest :: "jsstring \<Rightarrow> jsstring option" where
  "spaceThenRest s =
     (let ws = takeWhile isWhiteSpace s;
          r = dropWhile isWhiteSpace s
      in if ws \<noteq> [] \<and> list_all (\<lambda>c. \<not> isLineTerminator c) r then Some r else None)"

text \<open>\<^verbatim>\<open>^(#{1,6})\s+(.*)$\<close>: the length of group 1 and group 2.\<close>

definition headerMatch :: "jsstring \<Rightarrow> (nat \<times> jsstring) option" where
  "headerMatch s =
     (let hashes = takeWhile (\<lambda>c. c = 35) s
      in if 1 \<le> length hashes \<and> length hashes \<le> 6 then
           map_option (\<lambda>t. (length hashes, t)) (spaceThenRest (dropWhile (\<lambda>c. c = 35) s))
         else None)"

text \<open>\<^verbatim>\<open>^(-{3,}|_{3,}|\*{3,})$\<close>\<close>

definition isHorizontalRule :: "jsstring \<Rightarrow> bool" where
  "isHorizontalRule s \<longleftrightarrow>
     3 \<le> length s \<and>
     (list_all (\<lambda>c. c = 45) s \<or> list_all (\<lambda>c. c = 95) s \<or> list_all (\<lambda>c. c = 42) s)"

text \<open>The class \<^verbatim>\<open>[-*+]\<close>.\<close>

definition isBullet :: "nat \<Rightarrow> bool" where
  "isBullet c \<longleftrightarrow> c = 45 \<or> c = 42 \<or> c = 43"

text \<open>\<^verbatim>\<open>^[-*+]\s+\[([ xX])\]\s+(.*)$\<close>: groups 1 and 2.\<close>

definition taskMatch :: "jsstring \<Rightarrow> (nat \<times> jsstring) option" where
  "taskMatch s =
     (case s of
        [] \<Rightarrow> None
      | b # s1 \<Rightarrow>
          if isBullet b \<and> takeWhile isWhiteSpace s1 \<noteq> [] then
            (case dropWhile isWhiteSpace s1 of
               l # c # r # s2 \<Rightarrow>
                 if l = 91 \<and> (c = 32 \<or> c = 120 \<or> c = 88) \<and> r = 93 then
                   map_option (\<lambda>t. (c, t)) (spaceThenRest s2)
                 else None
             | _ \<Rightarrow> None)
          else None)"

text \<open>\<^verbatim>\<open>^[-*+]\s+(.*)$\<close>: group 1.\<close>

definition ulMatch :: "jsstring \<Rightarrow> jsstring option" where
  "ulMatch s = (case s of [] \<Rightarrow> None | b # s1 \<Rightarrow> if isBullet b then spaceThenRest s1 else None)"

text \<open>\<^verbatim>\<open>^(\d+)[.)]\s+(.*)$\<close>: groups 1 and 2.\<close>

definition isDigit :: "nat \<Rightarrow> bool" where
  "isDigit c \<longleftrightarrow> 48 \<le> c \<and> c \<le> 57"

definition olMatch :: "jsstring \<Rightarrow> (jsstring \<times> jsstring) option" where
  "olMatch s =
     (let num = takeWhile isDigit s
      in if num = [] then None
         else (case dropWhile isDigit s of
                 [] \<Rightarrow> None
               | p # s1 \<Rightarrow>
                   if p = 46 \<or> p = 41 then map_option (\<lambda>t. (num, t)) (spaceThenRest s1)
                   else None))"

subsection \<open>The loop over the lines\<close>

text \<open>The variables of \<open>renderMarkdownThemedStyled\<close> that change from line to line.\<close>

record RenderState =
  rs_inCodeBlock :: bool
  rs_codeBlockLang :: jsstring
  rs_inTable :: bool
  rs_tableLines :: "jsstring list"
  rs_chunks :: "TextChunk list"

text \<open>
  A line inside a code block.
\<close>

definition codeLine :: "RGBA MarkdownTheme \<Rightarrow> jsstring \<Rightarrow> jsstring \<Rightarrow> TextChunk list \<Rightarrow> TextChunk list" where
  "codeLine theme lang line chunks =
     (if lang = ustr ''diff'' then
        (if startsWith (trim line) [43] then
           addChunk (ustr ''  '' @ line @ [10]) (Some (diffAdded theme)) 0 chunks
         else if startsWith (trim line) [45] then
           addChunk (ustr ''  '' @ line @ [10]) (Some (diffRemoved theme)) 0 chunks
         else addChunk (ustr ''  '' @ line @ [10]) (Some (markdownCodeBlock theme)) 0 chunks)
      else addChunk (ustr ''  '' @ line @ [10]) (Some (markdownCodeBlock theme)) Attr_ITALIC chunks)"

text \<open>\<open>trimmed.startsWith("|") && trimmed.endsWith("|")\<close>\<close>

definition isTableLine :: "jsstring \<Rightarrow> bool" where
  "isTableLine trimmed \<longleftrightarrow> startsWith trimmed [124] \<and> endsWith trimmed [124]"

text \<open>
  \<open>!nextLine || !nextLine.startsWith("|") || !nextLine.endsWith("|")\<close> for
  \<open>nextLine = lines[i + 1]?.trim()\<close>; \<open>None\<close> is the line after the last.
\<close>

definition tableEnds :: "jsstring option \<Rightarrow> bool" where
  "tableEnds next =
     (case next of
        None \<Rightarrow> True
      | Some l \<Rightarrow> trim l = [] \<or> \<not> startsWith (trim l) [124] \<or> \<not> endsWith (trim l) [124])"

text \<open>
  The body of the \<open>for\<close> loop over the lines, for the line \<open>lines[i]\<close> and the line after
  it. The horizontal rule repeats a character \<open>cols - 4\<close> times, which throws when that is
  negative.
\<close>

definition renderLine ::
  "(jsstring \<Rightarrow> nat) \<Rightarrow> RGBA MarkdownTheme \<Rightarrow> int \<Rightarrow> jsstring \<Rightarrow> jsstring option \<Rightarrow> RenderState
     \<Rightarrow> error + RenderState" where
  "renderLine sw theme cols line next st =
     (let trimmed = trim line; chunks = rs_chunks st in
      if startsWith trimmed (ustr ''```'') then
        (if rs_inCodeBlock st then Inr (st\<lparr>rs_inCodeBlock := False, rs_codeBlockLang := []\<rparr>)
         else Inr (st\<lparr>rs_inCodeBlock := True, rs_codeBlockLang := trim (drop 3 trimmed)\<rparr>))
      else if rs_inCodeBlock st then
        Inr (st\<lparr>rs_chunks := codeLine theme (rs_codeBlockLang st) line chunks\<rparr>)
      else if isTableLine trimmed then
        (let tableLines = (if \<not> rs_inTable st then [] else rs_tableLines st) @ [trimmed]
         in if tableEnds next then
              Inr (st\<lparr>rs_chunks := renderTableThemed sw tableLines theme chunks cols,
                      rs_inTable := False, rs_tableLines := []\<rparr>)
            else Inr (st\<lparr>rs_inTable := True, rs_tableLines := tableLines\<rparr>))
      else
        (case headerMatch trimmed of
           Some (level, t) \<Rightarrow>
             (if level \<le> 2 then
                Inr (st\<lparr>rs_chunks :=
                  addChunkWithBg (ustr ''  '' @ [10]) (Some (markdownHeading theme))
                    (Some (backgroundPanel theme)) Attr_BOLD
                    (renderInlineThemedWithDefault t theme
                      (addChunkWithBg (ustr ''  '') (Some (markdownHeading theme))
                        (Some (backgroundPanel theme)) Attr_BOLD chunks)
                      (markdownHeading theme) Attr_BOLD)\<rparr>)
              else
                Inr (st\<lparr>rs_chunks :=
                  addChunk [10] None 0
                    (renderInlineThemedWithDefault t theme chunks (markdownHeading theme)
                      Attr_BOLD)\<rparr>))
         | None \<Rightarrow>
             if isHorizontalRule trimmed then
               (case repeat [Box_horizontal] (cols - 4) of
                  Inl e \<Rightarrow> Inl e
                | Inr rule \<Rightarrow>
                    Inr (st\<lparr>rs_chunks :=
                      addChunk (rule @ [10]) (Some (markdownHorizontalRule theme)) Attr_DIM chunks\<rparr>))
             else if startsWith trimmed [62] then
               (let content = dropWhile isWhiteSpace (drop 1 trimmed)
                in Inr (st\<lparr>rs_chunks :=
                     addChunk [10] None 0
                       (renderInlineThemedWithDefault content theme
                         (addChunk (ustr ''  '' @ [Box_vertical] @ ustr '' '') (Some (border theme))
                           Attr_DIM chunks)
                         (markdownBlockQuote theme) Attr_ITALIC)\<rparr>))
             else
               (case taskMatch trimmed of
                  Some (mark, content) \<Rightarrow>
                    (let indent = takeWhile isWhiteSpace line;
                         checked = (mark = 120 \<or> mark = 88)
                     in Inr (st\<lparr>rs_chunks :=
                          addChunk [10] None 0
                            (renderInlineThemed content theme
                              (addChunk (ustr ''] '') (Some (markdownListItem theme)) 0
                                (addChunk (if checked then ustr ''x'' else ustr '' '')
                                   (Some (if checked then diffAdded theme else textMuted theme)) 0
                                  (addChunk (ustr ''['') (Some (markdownListItem theme)) 0
                                    (addChunk (indent @ ustr ''- '') (Some (markdownListItem theme)) 0
                                      chunks)))))\<rparr>))
                | None \<Rightarrow>
                    (case ulMatch trimmed of
                       Some content \<Rightarrow>
                         (let indent = takeWhile isWhiteSpace line
                          in Inr (st\<lparr>rs_chunks :=
                               addChunk [10] None 0
                                 (renderInlineThemed content theme
                                   (addChunk (indent @ ustr ''- '') (Some (markdownListItem theme)) 0
                                     chunks))\<rparr>))
                     | None \<Rightarrow>
                         (case olMatch trimmed of
                            Some (num, content) \<Rightarrow>
                              (let indent = takeWhile isWhiteSpace line
                               in Inr (st\<lparr>rs_chunks :=
                                    addChunk [10] None 0
                                      (renderInlineThemed content theme
                                        (addChunk (indent @ num @ ustr ''. '')
                                           (Some (markdownListEnumeration theme)) 0 chunks))\<rparr>))
                          | None \<Rightarrow>
                              if trimmed = [] then
                                Inr (st\<lparr>rs_chunks := addChunk [10] None 0 chunks\<rparr>)
                              else
                                Inr (st\<lparr>rs_chunks :=
                                  addChunk [10] None 0 (renderInlineThemed line theme chunks)\<rparr>))))))"

text \<open>The loop, on the lines from index \<open>i\<close> on; an exception ends it.\<close>

fun renderLines ::
  "(jsstring \<Rightarrow> nat) \<Rightarrow> RGBA MarkdownTheme \<Rightarrow> int \<Rightarrow> jsstring list \<Rightarrow> RenderState
     \<Rightarrow> error + RenderState" where
  "renderLines sw theme cols [] st = Inr st"
| "renderLines sw theme cols (line # rest) st =
     (case renderLine sw theme cols line (case rest of [] \<Rightarrow> None | n # ns \<Rightarrow> Some n) st of
        Inl e \<Rightarrow> Inl e
      | Inr st' \<Rightarrow> renderLines sw theme cols rest st')"

text \<open>\<open>options.cols ?? process.stdout.columns ?? 80\<close>; the terminal's width is a parameter.\<close>

definition colsOf :: "int option \<Rightarrow> int option \<Rightarrow> int" where
  "colsOf optCols stdoutColumns =
     (case optCols of
        Some c \<Rightarrow> c
      | None \<Rightarrow> (case stdoutColumns of Some c \<Rightarrow> c | None \<Rightarrow> 80))"

definition initialState :: RenderState where
  "initialState =
     \<lparr>rs_inCodeBlock = False, rs_codeBlockLang = [], rs_inTable = False, rs_tableLines = [],
      rs_chunks = []\<rparr>"

text \<open>
  \<open>renderMarkdownThemedStyled(md, tuiTheme, { cols })\<close>: the chunks of the \<open>StyledText\<close> it
  returns, or the exception it throws.
\<close>

definition renderMarkdownThemedStyled ::
  "(jsstring \<Rightarrow> nat) \<Rightarrow> int option \<Rightarrow> jsstring \<Rightarrow> TuiRGBA MarkdownTheme \<Rightarrow> int option
     \<Rightarrow> error + TextChunk list" where
  "renderMarkdownThemedStyled sw stdoutColumns md tuiTheme optCols =
     (let cols = colsOf optCols stdoutColumns;
          theme = internalTheme tuiTheme;
          lines = splitOn 10 md
      in case renderLines sw theme cols lines initialState of
           Inl e \<Rightarrow> Inl e
         | Inr st \<Rightarrow> Inr (rs_chunks st))"

section \<open>The plain renderer and the entry point\<close>

record TerminalMarkdownOptions =
  opt_cols :: "int option"
  opt_indent :: "jsstring option"
  opt_codePrefix :: "jsstring option"
  opt_listPrefix :: "jsstring option"
  opt_colors :: "bool option"
  opt_theme :: "TuiRGBA MarkdownTheme option"

text \<open>
  \<^verbatim>\<open>\s+(.+)$\<close> at the head of a string: group 1. When the white space runs to the end of
  the string, the greedy \<^verbatim>\<open>\s+\<close> gives its last character back to the group.
\<close>

definition spaceThenSome :: "jsstring \<Rightarrow> jsstring option" where
  "spaceThenSome s =
     (let ws = takeWhile isWhiteSpace s;
          r = dropWhile isWhiteSpace s
      in if ws = [] then None
         else if r \<noteq> [] then (if list_all (\<lambda>c. \<not> isLineTerminator c) r then Some r else None)
         else if 2 \<le> length ws \<and> \<not> isLineTerminator (last ws) then Some [last ws]
         else None)"

text \<open>\<^verbatim>\<open>^(#{1,6})\s+(.+)$\<close>: group 2.\<close>

definition simpleHeaderMatch :: "jsstring \<Rightarrow> jsstring option" where
  "simpleHeaderMatch s =
     (let hashes = takeWhile (\<lambda>c. c = 35) s
      in if 1 \<le> length hashes \<and> length hashes \<le> 6 then
           spaceThenSome (dropWhile (\<lambda>c. c = 35) s)
         else None)"

text \<open>\<^verbatim>\<open>^(\s*)[-*+]\s+(.+)$\<close>: groups 1 and 2.\<close>

definition simpleListMatch :: "jsstring \<Rightarrow> (jsstring \<times> jsstring) option" where
  "simpleListMatch s =
     (case dropWhile isWhiteSpace s of
        [] \<Rightarrow> None
      | b # s1 \<Rightarrow>
          if isBullet b then map_option (\<lambda>t. (takeWhile isWhiteSpace s, t)) (spaceThenSome s1)
          else None)"

text \<open>The variables of \<open>renderMarkdownSimple\<close> that change from line to line.\<close>

record SimpleState =
  ss_inCodeBlock :: bool
  ss_codeBlockContent :: "jsstring list"
  ss_result :: "jsstring list"

text \<open>The body of the \<open>while (i < lines.length)\<close> loop.\<close>

definition simpleLine ::
  "int \<Rightarrow> jsstring \<Rightarrow> jsstring \<Rightarrow> jsstring \<Rightarrow> SimpleState \<Rightarrow> error + SimpleState" where
  "simpleLine cols indent listPrefix line st =
     (if startsWith line (ustr ''```'') then
        (if ss_inCodeBlock st then
           Inr (st\<lparr>ss_result := ss_result st
                      @ [indent @ joinWith ([10] @ indent) (ss_codeBlockContent st)],
                   ss_codeBlockContent := [], ss_inCodeBlock := False\<rparr>)
         else Inr (st\<lparr>ss_inCodeBlock := True\<rparr>))
      else if ss_inCodeBlock st then
        Inr (st\<lparr>ss_codeBlockContent := ss_codeBlockContent st @ [line]\<rparr>)
      else
        (case simpleHeaderMatch line of
           Some t \<Rightarrow> Inr (st\<lparr>ss_result := ss_result st @ [[10] @ t @ [10]]\<rparr>)
         | None \<Rightarrow>
             if isHorizontalRule (trim line) then
               (case repeat [Box_horizontal] (min (cols - 4) 60) of
                  Inl e \<Rightarrow> Inl e
                | Inr rule \<Rightarrow> Inr (st\<lparr>ss_result := ss_result st @ [[10] @ rule @ [10]]\<rparr>))
             else
               (case simpleListMatch line of
                  Some (ws, t) \<Rightarrow>
                    (let depth = length ws div 2
                     in Inr (st\<lparr>ss_result := ss_result st
                               @ [concat (replicate depth indent) @ listPrefix @ t]\<rparr>))
                | None \<Rightarrow> Inr (st\<lparr>ss_result := ss_result st @ [line]\<rparr>))))"

fun simpleLines ::
  "int \<Rightarrow> jsstring \<Rightarrow> jsstring \<Rightarrow> jsstring list \<Rightarrow> SimpleState \<Rightarrow> error + SimpleState" where
  "simpleLines cols indent listPrefix [] st = Inr st"
| "simpleLines cols indent listPrefix (line # rest) st =
     (case simpleLine cols indent listPrefix line st of
        Inl e \<Rightarrow> Inl e
      | Inr st' \<Rightarrow> simpleLines cols indent listPrefix rest st')"

definition renderMarkdownSimple ::
  "int option \<Rightarrow> jsstring \<Rightarrow> TerminalMarkdownOptions \<Rightarrow> error + jsstring" where
  "renderMarkdownSimple stdoutColumns md options =
     (let cols = colsOf (opt_cols options) stdoutColumns;
          indent = (case opt_indent options of Some s \<Rightarrow> s | None \<Rightarrow> ustr ''  '');
          listPrefix = (case opt_listPrefix options of Some s \<Rightarrow> s | None \<Rightarrow> ustr ''- '');
          lines = splitOn 10 md
      in case simpleLines cols indent listPrefix lines
                \<lparr>ss_inCodeBlock = False, ss_codeBlockContent = [], ss_result = []\<rparr> of
           Inl e \<Rightarrow> Inl e
         | Inr st \<Rightarrow> Inr (joinWith [10] (ss_result st)))"

text \<open>\<open>createDefaultCliTheme\<close> and its local \<open>rgb\<close>.\<close>

definition rgb :: "real \<Rightarrow> real \<Rightarrow> real \<Rightarrow> TuiRGBA" where
  "rgb r g b = \<lparr>tui_r = Num (r / 255), tui_g = Num (g / 255), tui_b = Num (b / 255), tui_a = Num 1\<rparr>"

definition createDefaultCliTheme :: "TuiRGBA MarkdownTheme" where
  "createDefaultCliTheme =
     \<lparr>text' = rgb 229 229 229,
      textMuted = rgb 102 102 102,
      accent = rgb 36 114 200,
      primary = rgb 36 114 200,
      border = rgb 102 102 102,
      background = rgb 0 0 0,
      backgroundPanel = rgb 60 60 60,
      backgroundElement = rgb 40 40 40,
      markdownText = rgb 229 229 229,
      markdownHeading = rgb 229 229 229,
      markdownLink = rgb 36 114 200,
      markdownLinkText = rgb 17 168 205,
      markdownCode = rgb 13 188 121,
      markdownCodeBlock = rgb 229 229 229,
      markdownBlockQuote = rgb 229 229 16,
      markdownEmph = rgb 229 229 16,
      markdownStrong = rgb 229 229 229,
      markdownListItem = rgb 36 114 200,
      markdownListEnumeration = rgb 17 168 205,
      markdownHorizontalRule = rgb 102 102 102,
      diffAdded = rgb 13 188 121,
      diffRemoved = rgb 205 49 49\<rparr>"

text \<open>
  \<open>renderMarkdown(md, options)\<close>. The width is read here and handed on as \<open>{ cols }\<close>.
\<close>

definition renderMarkdown ::
  "(jsstring \<Rightarrow> nat) \<Rightarrow> int option \<Rightarrow> jsstring \<Rightarrow> TerminalMarkdownOptions \<Rightarrow> error + jsstring" where
  "renderMarkdown sw stdoutColumns md options =
     (let cols = colsOf (opt_cols options) stdoutColumns;
          colors = (case opt_colors options of Some c \<Rightarrow> c | None \<Rightarrow> True)
      in if \<not> colors then renderMarkdownSimple stdoutColumns md options
         else
           (let theme = (case opt_theme options of Some t \<Rightarrow> t | None \<Rightarrow> createDefaultCliTheme)
            in case renderMarkdownThemedStyled sw stdoutColumns md theme (Some cols) of
                 Inl e \<Rightarrow> Inl e
               | Inr chunks \<Rightarrow> Inr (textChunksToAnsi chunks)))"

section \<open>Segments\<close>

text \<open>A text segment with its content; a code segment with its content and language.\<close>

datatype MarkdownSegment =
    TextSegment jsstring
  | CodeSegment jsstring jsstring

text \<open>The variables of \<open>parseMarkdownSegments\<close> that change from line to line.\<close>

record SegmentState =
  sg_segments :: "MarkdownSegment list"
  sg_currentText :: "jsstring list"
  sg_inCodeBlock :: bool
  sg_codeBlockLang :: jsstring
  sg_codeBlockContent :: "jsstring list"

definition flushText :: "SegmentState \<Rightarrow> SegmentState" where
  "flushText st =
     (if length (sg_currentText st) > 0 then
        st\<lparr>sg_segments := sg_segments st @ [TextSegment (joinWith [10] (sg_currentText st))],
           sg_currentText := []\<rparr>
      else st)"

text \<open>The body of the \<open>for (const line of lines)\<close> loop.\<close>

definition segmentLine :: "SegmentState \<Rightarrow> jsstring \<Rightarrow> SegmentState" where
  "segmentLine st line =
     (let trimmed = trim line in
      if startsWith trimmed (ustr ''```'') then
        (if sg_inCodeBlock st then
           st\<lparr>sg_segments := sg_segments st
                  @ [CodeSegment (joinWith [10] (sg_codeBlockContent st)) (sg_codeBlockLang st)],
              sg_codeBlockContent := [], sg_inCodeBlock := False, sg_codeBlockLang := []\<rparr>
         else
           (flushText st)\<lparr>sg_inCodeBlock := True,
              sg_codeBlockLang :=
                (if trim (drop 3 trimmed) \<noteq> [] then trim (drop 3 trimmed) else ustr ''text'')\<rparr>)
      else if sg_inCodeBlock st then st\<lparr>sg_codeBlockContent := sg_codeBlockContent st @ [line]\<rparr>
      else st\<lparr>sg_currentText := sg_currentText st @ [line]\<rparr>)"

text \<open>The variables as they are declared.\<close>

definition segmentStart :: SegmentState where
  "segmentStart =
     \<lparr>sg_segments = [], sg_currentText = [], sg_inCodeBlock = False, sg_codeBlockLang = [],
      sg_codeBlockContent = []\<rparr>"

definition parseMarkdownSegments :: "jsstring \<Rightarrow> MarkdownSegment list" where
  "parseMarkdownSegments md =
     (let st = flushText (foldl segmentLine segmentStart (splitOn 10 md))
      in if sg_inCodeBlock st \<and> length (sg_codeBlockContent st) > 0 then
           sg_segments st
             @ [CodeSegment (joinWith [10] (sg_codeBlockContent st)) (sg_codeBlockLang st)]
         else sg_segments st)"

section \<open>Notions the properties are stated with\<close>

text \<open>A fence line, as the themed renderer and the segment parser recognise it.\<close>

definition fenceLine :: "jsstring \<Rightarrow> bool" where
  "fenceLine line \<longleftrightarrow> startsWith (trim line) (ustr ''```'')"

text \<open>
  Whether the lines leave a code fence open: every fence line opens a block or closes the
  open one.
\<close>

definition fenceOpenFrom :: "bool \<Rightarrow> jsstring list \<Rightarrow> bool" where
  "fenceOpenFrom b ls = foldl (\<lambda>inBlock line. if fenceLine line then \<not> inBlock else inBlock) b ls"

definition fenceOpen :: "jsstring \<Rightarrow> bool" where
  "fenceOpen md = fenceOpenFrom False (splitOn 10 md)"

text \<open>The codes that \<open>textChunksToAnsi\<close> prints before the text of a chunk.\<close>

definition chunkCodes :: "TextChunk \<Rightarrow> jsstring" where
  "chunkCodes chunk = attrCodes (attributes chunk) @ fgCode (fg chunk) @ bgCode (bg chunk)"

text \<open>
  The stretches of literal text that stand side by side in the output of
  \<open>textChunksToAnsi\<close>: the text of a chunk with codes stands alone between its codes and
  the reset, the texts of neighbouring chunks without codes are joined. The first stretch
  is the one that the text before the chunks would join.
\<close>

fun textRuns :: "TextChunk list \<Rightarrow> jsstring list" where
  "textRuns [] = [[]]"
| "textRuns (c # cs) =
     (if chunkCodes c \<noteq> [] then [] # chunk_text c # textRuns cs
      else (case textRuns cs of
              [] \<Rightarrow> [chunk_text c]
            | r # rs \<Rightarrow> (chunk_text c @ r) # rs))"





text \<open>
  A width function that adds up over concatenation, as \<open>Bun.stringWidth\<close> does on text
  without combining marks or joined emoji.
\<close>

definition additiveWidth :: "(jsstring \<Rightarrow> nat) \<Rightarrow> bool" where
  "additiveWidth sw \<longleftrightarrow> (\<forall>a b. sw (a @ b) = sw a + sw b)"




section \<open>Notions of the proofs\<close>

subsection \<open>Escape sequences\<close>

text \<open>A string that is empty or starts with the escape character.\<close>

definition escStart :: "jsstring \<Rightarrow> bool" where
  "escStart s \<longleftrightarrow> s = [] \<or> (\<exists>y. s = 27 # y)"

text \<open>
  What the loop of \<open>renderMarkdownSimple\<close> keeps: no escape sequence in \<open>result\<close> or in the
  lines of the open block.
\<close>

definition cleanState :: "SimpleState \<Rightarrow> bool" where
  "cleanState st \<longleftrightarrow>
     (\<forall>r\<in>set (ss_result st). \<not> hasAnsi r) \<and> (\<forall>l\<in>set (ss_codeBlockContent st). \<not> hasAnsi l)"

subsection \<open>Characters\<close>


text \<open>The chunks added to a list hold only characters of a given set.\<close>

definition addsWithin :: "nat set \<Rightarrow> TextChunk list \<Rightarrow> TextChunk list \<Rightarrow> bool" where
  "addsWithin A chunks chunks' \<longleftrightarrow>
     (\<exists>new. chunks' = chunks @ new \<and> (\<forall>c\<in>set new. set (chunk_text c) \<subseteq> A))"


subsection \<open>Rows\<close>






lemma isCodeChar_m [simp]: "\<not> isCodeChar 109"
  by (simp add: isCodeChar_def)

lemma isCodeChar_esc [simp]: "\<not> isCodeChar 27"
  by (simp add: isCodeChar_def)

lemma dropWhile_code_append:
  "\<forall>c\<in>set ps. isCodeChar c \<Longrightarrow> dropWhile isCodeChar (ps @ 109 # rest) = 109 # rest"
  by (induction ps) (auto simp: isCodeChar_def)

lemma takeWhile_code_append:
  "\<forall>c\<in>set ps. isCodeChar c \<Longrightarrow> takeWhile isCodeChar (ps @ 109 # rest) = ps"
  by (induction ps) (auto simp: isCodeChar_def)

lemma ansiSeq_csi:
  "\<forall>c\<in>set ps. isCodeChar c \<Longrightarrow> ansiSeq (csi ps @ rest) = Some (ps, rest)"
  by (simp add: csi_def dropWhile_code_append takeWhile_code_append)

lemma stripAnsi_csi:
  "\<forall>c\<in>set ps. isCodeChar c \<Longrightarrow> stripAnsi (csi ps @ rest) = stripAnsi rest"
proof -
  assume h: "\<forall>c\<in>set ps. isCodeChar c"
  have "csi ps @ rest = 27 # (91 # ps @ 109 # rest)" by (simp add: csi_def)
  moreover have "ansiSeq (27 # (91 # ps @ 109 # rest)) = Some (ps, rest)"
    using ansiSeq_csi [OF h, of rest] by (simp add: csi_def)
  ultimately show ?thesis by simp
qed

lemma ansiSeq_append_other:
  assumes "t \<noteq> []" and "\<not> isCodeChar k" and "k \<noteq> 109" and "k \<noteq> 91"
  shows "ansiSeq (t @ k # x) = map_option (\<lambda>(p, r). (p, r @ k # x)) (ansiSeq t)"
proof (cases t)
  case Nil
  with assms(1) show ?thesis by simp
next
  case outer: (Cons e t')
  show ?thesis
  proof (cases t')
    case Nil
    with outer assms(4) show ?thesis by simp
  next
    case (Cons l cs)
    with outer have 1: "t = e # l # cs" by simp
    show ?thesis
    proof (cases "\<forall>c\<in>set cs. isCodeChar c")
      case True
      then have "dropWhile isCodeChar (cs @ k # x) = k # x" "dropWhile isCodeChar cs = []"
        using assms(2) by (simp_all add: dropWhile_append2)
      with 1 assms(3) show ?thesis by (simp del: dropWhile_eq_Nil_conv dropWhile_append)
    next
      case False
      then obtain y where "y \<in> set cs" "\<not> isCodeChar y" by blast
      then have "dropWhile isCodeChar (cs @ k # x) = dropWhile isCodeChar cs @ k # x"
        "takeWhile isCodeChar (cs @ k # x) = takeWhile isCodeChar cs"
        by (simp_all add: dropWhile_append1 takeWhile_append1)
      with 1 assms(3) show ?thesis
        by (simp del: dropWhile_append takeWhile_append dropWhile_eq_Nil_conv split: list.splits)
    qed
  qed
qed

lemma ansiSeq_append_esc:
  "t \<noteq> [] \<Longrightarrow>
   ansiSeq (t @ 27 # x) = map_option (\<lambda>(p, r). (p, r @ 27 # x)) (ansiSeq t)"
  by (rule ansiSeq_append_other) simp_all

lemma stripAnsi_append_esc:
  "stripAnsi (t @ 27 # x) = stripAnsi t @ stripAnsi (27 # x)"
proof (induction t rule: stripAnsi.induct)
  case 1
  show ?case by simp
next
  case (2 c cs)
  have eq: "ansiSeq ((c # cs) @ 27 # x) = map_option (\<lambda>(p, r). (p, r @ 27 # x)) (ansiSeq (c # cs))"
    by (rule ansiSeq_append_esc) simp
  show ?case
  proof (cases "ansiSeq (c # cs)")
    case None
    with eq 2 show ?thesis by simp
  next
    case (Some pr)
    obtain p r where pr: "pr = (p, r)" by (cases pr)
    with Some eq 2 show ?thesis by simp
  qed
qed

lemma stripAnsi_no_ansi: "\<not> hasAnsi t \<Longrightarrow> stripAnsi t = t"
  by (induction t) (auto split: option.splits)

lemma ansiSeq_append:
  "ansiSeq s \<noteq> None \<Longrightarrow> ansiSeq (s @ t) \<noteq> None"
proof (cases s rule: ansiSeq.cases)
  case (1 e l cs)
  assume h: "ansiSeq s \<noteq> None"
  with 1 obtain rest where d: "dropWhile isCodeChar cs = 109 # rest" and el: "e = 27" "l = 91"
    by (auto split: if_splits list.splits)
  then have "dropWhile isCodeChar cs \<noteq> []" by simp
  then obtain y where "y \<in> set cs" "\<not> isCodeChar y"
    by (metis dropWhile_eq_Nil_conv)
  then have "dropWhile isCodeChar (cs @ t) = dropWhile isCodeChar cs @ t"
    by (simp add: dropWhile_append1)
  with 1 d el show ?thesis by simp
qed simp_all

lemma hasAnsi_appendI1: "hasAnsi s \<Longrightarrow> hasAnsi (s @ t)"
proof (induction s)
  case (Cons c cs)
  then show ?case using ansiSeq_append [of "c # cs" t] by auto
qed simp

lemma hasAnsi_appendI2: "hasAnsi t \<Longrightarrow> hasAnsi (s @ t)"
  by (induction s) auto

lemma escStart_append: "escStart s \<Longrightarrow> escStart t \<Longrightarrow> escStart (s @ t)"
  by (auto simp: escStart_def)

lemma escStart_csi: "escStart (csi p)"
  by (simp add: escStart_def csi_def)

lemma escStart_if: "escStart (if c then csi p else [])"
  by (simp add: escStart_def csi_def)

lemma escStart_attrCodes: "escStart (attrCodes n)"
proof (cases "n = 0")
  case True
  then show ?thesis by (simp add: attrCodes_def escStart_def)
next
  case False
  then have "attrCodes n =
        (if n AND Attr_BOLD \<noteq> 0 then csi (ustr ''1'') else []) @
        (if n AND Attr_DIM \<noteq> 0 then csi (ustr ''2'') else []) @
        (if n AND Attr_ITALIC \<noteq> 0 then csi (ustr ''3'') else []) @
        (if n AND Attr_UNDERLINE \<noteq> 0 then csi (ustr ''4'') else []) @
        (if n AND Attr_BLINK \<noteq> 0 then csi (ustr ''5'') else []) @
        (if n AND Attr_INVERSE \<noteq> 0 then csi (ustr ''7'') else []) @
        (if n AND Attr_HIDDEN \<noteq> 0 then csi (ustr ''8'') else []) @
        (if n AND Attr_STRIKETHROUGH \<noteq> 0 then csi (ustr ''9'') else [])"
    unfolding attrCodes_def by (simp split del: if_split)
  then show ?thesis
    by (simp only:) (intro escStart_append escStart_if)
qed

lemma natToString_digits: "\<forall>c\<in>set (natToString n). isCodeChar c"
proof (induction n rule: natToString.induct)
  case (1 n)
  show ?case
  proof (cases "n < 10")
    case True
    then show ?thesis by (subst natToString.simps) (simp add: isCodeChar_def)
  next
    case False
    have "n mod 10 < 10" by simp
    then have "isCodeChar (48 + n mod 10)" unfolding isCodeChar_def by linarith
    with False 1 show ?thesis by (subst natToString.simps) simp
  qed
qed

lemma jsintToString_digits:
  assumes "natComponent x"
  shows "\<forall>c\<in>set (jsintToString x). isCodeChar c"
proof -
  from assms obtain i where i: "x = JInt i" "0 \<le> i" "i < 2 ^ 53"
    by (cases x) (simp_all add: natComponent_def)
  have "(2::int) ^ 53 < 10 ^ 21" by simp
  with i(3) have "i < 10 ^ 21" by linarith
  with i(2) have "nat i < 10 ^ 21" by (simp add: nat_less_iff)
  with i(1,2) have "jsintToString x = natToString (nat i)"
    by (simp add: jsintToString_def magToString_def)
  with natToString_digits show ?thesis by simp
qed

lemma ustr_38: "\<forall>c\<in>set (ustr ''38;2;''). isCodeChar c"
  by (simp add: ustr_def isCodeChar_def)

lemma ustr_48: "\<forall>c\<in>set (ustr ''48;2;''). isCodeChar c"
  by (simp add: ustr_def isCodeChar_def)

lemma stripAnsi_if_csi:
  "\<forall>c\<in>set p. isCodeChar c \<Longrightarrow> stripAnsi ((if b then csi p else []) @ rest) = stripAnsi rest"
  by (simp add: stripAnsi_csi)

lemma stripAnsi_attrCodes: "stripAnsi (attrCodes n @ rest) = stripAnsi rest"
proof -
  have d: "\<And>s. s \<in> {ustr ''1'', ustr ''2'', ustr ''3'', ustr ''4'', ustr ''5'', ustr ''7'',
      ustr ''8'', ustr ''9''} \<Longrightarrow> \<forall>c\<in>set s. isCodeChar c"
    by (auto simp: ustr_def isCodeChar_def)
  have e: "\<And>b s r. s \<in> {ustr ''1'', ustr ''2'', ustr ''3'', ustr ''4'', ustr ''5'', ustr ''7'',
      ustr ''8'', ustr ''9''} \<Longrightarrow> stripAnsi ((if b then csi s else []) @ r) = stripAnsi r"
    using d by (rule stripAnsi_if_csi)
  show ?thesis
    unfolding attrCodes_def
    by (cases "n = 0") (simp_all add: e split del: if_split)
qed

lemma rgb_params:
  assumes "\<forall>c\<in>set pfx. isCodeChar c" "natComponent r" "natComponent g" "natComponent b"
  shows "\<forall>c\<in>set (pfx @ jsintToString r @ 59 # jsintToString g @ 59 # jsintToString b).
           isCodeChar c"
proof -
  have "isCodeChar 59" by (simp add: isCodeChar_def)
  with assms jsintToString_digits show ?thesis by auto
qed

lemma stripAnsi_fgCode:
  assumes "natColour c"
  shows "stripAnsi (fgCode c @ rest) = stripAnsi rest"
proof (cases c)
  case None
  then show ?thesis by (simp add: fgCode_def)
next
  case (Some x)
  with assms have "natComponent (rgba_r x)" "natComponent (rgba_g x)" "natComponent (rgba_b x)"
    by (simp_all add: natColour_def)
  from rgb_params [OF ustr_38 this] Some show ?thesis
    by (simp add: fgCode_def rgbToAnsi_def stripAnsi_csi)
qed

lemma stripAnsi_bgCode:
  assumes "natColour c"
  shows "stripAnsi (bgCode c @ rest) = stripAnsi rest"
proof (cases c)
  case None
  then show ?thesis by (simp add: bgCode_def)
next
  case (Some x)
  with assms have "natComponent (rgba_r x)" "natComponent (rgba_g x)" "natComponent (rgba_b x)"
    by (simp_all add: natColour_def)
  from rgb_params [OF ustr_48 this] Some show ?thesis
    by (simp add: bgCode_def stripAnsi_csi)
qed

lemma escStart_fgCode: "escStart (fgCode c)"
  by (cases c) (simp_all add: fgCode_def rgbToAnsi_def escStart_def csi_def)

lemma escStart_bgCode: "escStart (bgCode c)"
  by (cases c) (simp_all add: bgCode_def escStart_def csi_def)

lemma chunkToAnsi_codes:
  "chunkToAnsi chunk =
     chunkCodes chunk @ chunk_text chunk @ (if chunkCodes chunk \<noteq> [] then csi (ustr ''0'') else [])"
  by (simp add: chunkToAnsi_def chunkCodes_def Let_def)

lemma escStart_chunkCodes: "escStart (chunkCodes chunk)"
  unfolding chunkCodes_def
  by (intro escStart_append escStart_attrCodes escStart_fgCode escStart_bgCode)

lemma stripAnsi_chunkCodes:
  "natColours chunk \<Longrightarrow> stripAnsi (chunkCodes chunk @ rest) = stripAnsi rest"
  by (simp add: chunkCodes_def natColours_def stripAnsi_attrCodes stripAnsi_fgCode stripAnsi_bgCode)

lemma textChunksToAnsi_foldl:
  "foldl (\<lambda>result chunk. result @ chunkToAnsi chunk) acc chunks = acc @ concat (map chunkToAnsi chunks)"
  by (induction chunks arbitrary: acc) simp_all

lemma textChunksToAnsi_Cons:
  "textChunksToAnsi (c # cs) = chunkToAnsi c @ textChunksToAnsi cs"
  by (simp add: textChunksToAnsi_def textChunksToAnsi_foldl)

lemma textChunksToAnsi_Nil: "textChunksToAnsi [] = []"
  by (simp add: textChunksToAnsi_def)

lemma stripAnsi_reset: "stripAnsi (csi (ustr ''0'') @ rest) = stripAnsi rest"
  by (rule stripAnsi_csi) (simp add: ustr_def isCodeChar_def)

lemma textRuns_not_Nil: "textRuns chunks \<noteq> []"
  by (induction chunks) (simp_all split: list.splits)

lemma concat_textRuns: "concat (textRuns chunks) = chunksText chunks"
proof (induction chunks)
  case Nil
  show ?case by (simp add: chunksText_def)
next
  case (Cons c cs)
  obtain r rs where r: "textRuns cs = r # rs" using textRuns_not_Nil [of cs] by (cases "textRuns cs") simp_all
  with Cons show ?case by (simp add: chunksText_def)
qed

text \<open>
  Stripping the output strips each stretch of text on its own: the codes and the reset
  around it are removed, and no sequence reaches across them.
\<close>

lemma strip_serialised_gen:
  "\<forall>c\<in>set chunks. natColours c \<Longrightarrow>
   stripAnsi (pre @ textChunksToAnsi chunks)
     = stripAnsi (pre @ hd (textRuns chunks)) @ concat (map stripAnsi (tl (textRuns chunks)))"
proof (induction chunks arbitrary: pre)
  case Nil
  show ?case by (simp add: textChunksToAnsi_Nil)
next
  case (Cons c cs)
  let ?t = "chunk_text c"
  obtain r rs where r: "textRuns cs = r # rs"
    using textRuns_not_Nil [of cs] by (cases "textRuns cs") simp_all
  have nc: "natColours c" and ncs: "\<forall>c\<in>set cs. natColours c" using Cons.prems by simp_all
  show ?case
  proof (cases "chunkCodes c = []")
    case True
    from Cons.IH [OF ncs, of "pre @ ?t"] True r show ?thesis
      by (simp add: textChunksToAnsi_Cons chunkToAnsi_codes)
  next
    case False
    then obtain y where y: "chunkCodes c = 27 # y"
      using escStart_chunkCodes [of c] by (auto simp: escStart_def)
    have rest: "stripAnsi (textChunksToAnsi cs) = stripAnsi r @ concat (map stripAnsi rs)"
      using Cons.IH [OF ncs, of "[]"] r by simp
    obtain z where z: "csi (ustr ''0'') = 27 # z" by (simp add: csi_def)
    have a: "stripAnsi (?t @ csi (ustr ''0'') @ textChunksToAnsi cs)
        = stripAnsi ?t @ stripAnsi r @ concat (map stripAnsi rs)"
    proof -
      have "stripAnsi (?t @ 27 # (z @ textChunksToAnsi cs))
          = stripAnsi ?t @ stripAnsi (27 # (z @ textChunksToAnsi cs))"
        by (rule stripAnsi_append_esc)
      moreover have "stripAnsi (27 # (z @ textChunksToAnsi cs)) = stripAnsi (textChunksToAnsi cs)"
        using stripAnsi_reset [of "textChunksToAnsi cs"] z by simp
      ultimately show ?thesis using z rest by simp
    qed
    have "stripAnsi (pre @ textChunksToAnsi (c # cs))
        = stripAnsi (pre @ 27 # (y @ ?t @ csi (ustr ''0'') @ textChunksToAnsi cs))"
      using False y by (simp add: textChunksToAnsi_Cons chunkToAnsi_codes)
    also have "\<dots> = stripAnsi pre @ stripAnsi (27 # (y @ ?t @ csi (ustr ''0'') @ textChunksToAnsi cs))"
      by (rule stripAnsi_append_esc)
    also have "stripAnsi (27 # (y @ ?t @ csi (ustr ''0'') @ textChunksToAnsi cs))
        = stripAnsi (?t @ csi (ustr ''0'') @ textChunksToAnsi cs)"
      using stripAnsi_chunkCodes [OF nc, of "?t @ csi (ustr ''0'') @ textChunksToAnsi cs"] y by simp
    finally show ?thesis using a False r by simp
  qed
qed

lemma stripAnsi_length: "length (stripAnsi s) \<le> length s"
proof (induction s rule: stripAnsi.induct)
  case 1
  show ?case by simp
next
  case (2 c cs)
  show ?case
  proof (cases "ansiSeq (c # cs)")
    case None
    with 2 show ?thesis by simp
  next
    case (Some pr)
    obtain p rest where pr: "pr = (p, rest)" by (cases pr)
    from ansiSeq_length [OF Some [unfolded pr]] 2(2) [OF Some [unfolded pr] refl]
    show ?thesis using Some pr by simp
  qed
qed

lemma stripAnsi_shorter: "hasAnsi s \<Longrightarrow> length (stripAnsi s) < length s"
proof (induction s)
  case Nil
  then show ?case by simp
next
  case (Cons c cs)
  show ?case
  proof (cases "ansiSeq (c # cs)")
    case None
    with Cons show ?thesis by simp
  next
    case (Some pr)
    obtain p rest where pr: "pr = (p, rest)" by (cases pr)
    from ansiSeq_length [OF Some [unfolded pr]] stripAnsi_length [of rest]
    show ?thesis using Some pr by simp
  qed
qed

lemma concat_strip_length: "length (concat (map stripAnsi rs)) \<le> length (concat rs)"
  by (induction rs) (simp_all add: add_mono stripAnsi_length)

lemma concat_strip_eq:
  "concat (map stripAnsi rs) = concat rs \<longleftrightarrow> (\<forall>r\<in>set rs. \<not> hasAnsi r)"
proof (induction rs)
  case Nil
  show ?case by simp
next
  case (Cons r rs)
  show ?case
  proof
    assume e: "concat (map stripAnsi (r # rs)) = concat (r # rs)"
    then have "length (concat (map stripAnsi (r # rs))) = length (concat (r # rs))"
      by (simp only:)
    then have "length (stripAnsi r) + length (concat (map stripAnsi rs))
        = length r + length (concat rs)"
      by simp
    with stripAnsi_length [of r] concat_strip_length [of rs]
    have l: "length (stripAnsi r) = length r" by linarith
    with e have "stripAnsi r = r" "concat (map stripAnsi rs) = concat rs" by simp_all
    moreover from l stripAnsi_shorter [of r] have "\<not> hasAnsi r" by auto
    ultimately show "\<forall>r\<in>set (r # rs). \<not> hasAnsi r" using Cons.IH by simp
  next
    assume "\<forall>r\<in>set (r # rs). \<not> hasAnsi r"
    then show "concat (map stripAnsi (r # rs)) = concat (r # rs)"
      using Cons.IH by (simp add: stripAnsi_no_ansi)
  qed
qed

lemma natToString_0: "natToString 0 = [48]"
  by (subst natToString.simps) simp

text \<open>
  Claim C10, as stated, asks only that no single text field holds an escape sequence.
  Two neighbouring chunks without codes then join into one: the texts \<open>ESC [\<close> and \<open>0m\<close>
  hold no sequence, their concatenation is one, and stripping the output removes it. And
  a colour component that does not print as digits leaves a code that is no escape
  sequence for \<open>stripAnsi\<close>: with the red component \<open>NaN\<close> the code
  \<open>ESC [ 38;2;NaN;0;0 m\<close> stays in the stripped output.
\<close>

theorem textChunksToAnsi_strip_counterexample:
  "\<not> hasAnsi [27, 91] \<and> \<not> hasAnsi [48, 109] \<and>
   stripAnsi (textChunksToAnsi
     [\<lparr>chunk_text = [27, 91], fg = None, bg = None, attributes = 0\<rparr>,
      \<lparr>chunk_text = [48, 109], fg = None, bg = None, attributes = 0\<rparr>]) = [] \<and>
   chunksText
     [\<lparr>chunk_text = [27, 91], fg = None, bg = None, attributes = 0\<rparr>,
      \<lparr>chunk_text = [48, 109], fg = None, bg = None, attributes = 0\<rparr>] = [27, 91, 48, 109] \<and>
   \<not> hasAnsi (ustr ''x'') \<and>
   stripAnsi (textChunksToAnsi
     [\<lparr>chunk_text = ustr ''x'',
       fg = Some \<lparr>rgba_r = JNaN, rgba_g = JInt 0, rgba_b = JInt 0, rgba_a = JInt 255\<rparr>,
       bg = None, attributes = 0\<rparr>]) = [27, 91] @ ustr ''38;2;NaN;0;0mx'' \<and>
   chunksText
     [\<lparr>chunk_text = ustr ''x'',
       fg = Some \<lparr>rgba_r = JNaN, rgba_g = JInt 0, rgba_b = JInt 0, rgba_a = JInt 255\<rparr>,
       bg = None, attributes = 0\<rparr>] = ustr ''x''"
  by (simp add: textChunksToAnsi_def chunkToAnsi_def attrCodes_def fgCode_def bgCode_def
      chunksText_def isCodeChar_def rgbToAnsi_def csi_def jsintToString_def magToString_def
      natToString_0 ustr_def)

text \<open>
  Claim C10, amended: for every sequence of text chunks whose printed colour components
  are integers from 0 to \<open>2^53 - 1\<close>, stripping all ANSI escape sequences from the output
  of \<open>textChunksToAnsi\<close> yields the left-to-right concatenation of the chunks' text
  fields exactly when no stretch of adjacent literal text holds an escape sequence: not
  the text of a chunk with codes, which stands between its codes and the reset, and not
  the joined texts of neighbouring chunks without codes.
\<close>

theorem textChunksToAnsi_strip:
  assumes "\<forall>c\<in>set chunks. natColours c"
  shows "stripAnsi (textChunksToAnsi chunks) = chunksText chunks \<longleftrightarrow>
         (\<forall>r\<in>set (textRuns chunks). \<not> hasAnsi r)"
proof -
  obtain r rs where r: "textRuns chunks = r # rs"
    using textRuns_not_Nil [of chunks] by (cases "textRuns chunks") simp_all
  have "stripAnsi (textChunksToAnsi chunks) = concat (map stripAnsi (textRuns chunks))"
    using strip_serialised_gen [OF assms, of "[]"] r by simp
  then show ?thesis
    using concat_strip_eq [of "textRuns chunks"] by (simp add: concat_textRuns)
qed

theorem textChunksToAnsi_strip_witness:
  "list_all natColours
      [\<lparr>chunk_text = [27, 91], fg = None, bg = None, attributes = 0\<rparr>,
       \<lparr>chunk_text = ustr ''0m hi '',
         fg = Some \<lparr>rgba_r = JInt 255, rgba_g = JInt 0, rgba_b = JInt 16, rgba_a = JInt 255\<rparr>,
         bg = None, attributes = 5\<rparr>,
       \<lparr>chunk_text = ustr ''there'', fg = None, bg = None, attributes = 0\<rparr>] \<and>
   textRuns
      [\<lparr>chunk_text = [27, 91], fg = None, bg = None, attributes = 0\<rparr>,
       \<lparr>chunk_text = ustr ''0m hi '',
         fg = Some \<lparr>rgba_r = JInt 255, rgba_g = JInt 0, rgba_b = JInt 16, rgba_a = JInt 255\<rparr>,
         bg = None, attributes = 5\<rparr>,
       \<lparr>chunk_text = ustr ''there'', fg = None, bg = None, attributes = 0\<rparr>]
     = [[27, 91], ustr ''0m hi '', ustr ''there''] \<and>
   list_all (\<lambda>r. \<not> hasAnsi r) [[27, 91], ustr ''0m hi '', ustr ''there''] \<and>
   hasAnsi (chunksText
      [\<lparr>chunk_text = [27, 91], fg = None, bg = None, attributes = 0\<rparr>,
       \<lparr>chunk_text = ustr ''0m hi '',
         fg = Some \<lparr>rgba_r = JInt 255, rgba_g = JInt 0, rgba_b = JInt 16, rgba_a = JInt 255\<rparr>,
         bg = None, attributes = 5\<rparr>,
       \<lparr>chunk_text = ustr ''there'', fg = None, bg = None, attributes = 0\<rparr>]) \<and>
   stripAnsi (textChunksToAnsi
      [\<lparr>chunk_text = [27, 91], fg = None, bg = None, attributes = 0\<rparr>,
       \<lparr>chunk_text = ustr ''0m hi '',
         fg = Some \<lparr>rgba_r = JInt 255, rgba_g = JInt 0, rgba_b = JInt 16, rgba_a = JInt 255\<rparr>,
         bg = None, attributes = 5\<rparr>,
       \<lparr>chunk_text = ustr ''there'', fg = None, bg = None, attributes = 0\<rparr>])
     = [27, 91] @ ustr ''0m hi there''"
proof -
  let ?cs = "[\<lparr>chunk_text = [27, 91], fg = None, bg = None, attributes = 0\<rparr>,
       \<lparr>chunk_text = ustr ''0m hi '',
         fg = Some \<lparr>rgba_r = JInt 255, rgba_g = JInt 0, rgba_b = JInt 16, rgba_a = JInt 255\<rparr>,
         bg = None, attributes = 5\<rparr>,
       \<lparr>chunk_text = ustr ''there'', fg = None, bg = None, attributes = 0\<rparr>]"
  have n: "\<forall>c\<in>set ?cs. natColours c"
    by (simp add: natColours_def natColour_def natComponent_def)
  have c: "chunkCodes \<lparr>chunk_text = ustr ''0m hi '',
         fg = Some \<lparr>rgba_r = JInt 255, rgba_g = JInt 0, rgba_b = JInt 16, rgba_a = JInt 255\<rparr>,
         bg = None, attributes = 5\<rparr> \<noteq> []"
    by (simp add: chunkCodes_def fgCode_def rgbToAnsi_def csi_def)
  have u: "chunkCodes \<lparr>chunk_text = t, fg = None, bg = None, attributes = 0\<rparr> = []" for t
    by (simp add: chunkCodes_def fgCode_def bgCode_def attrCodes_def)
  have t: "textRuns ?cs = [[27, 91], ustr ''0m hi '', ustr ''there'']"
    by (simp add: c u)
  have h: "\<forall>r\<in>set [[27, 91], ustr ''0m hi '', ustr ''there'']. \<not> hasAnsi r"
    by (simp add: ustr_def)
  have x: "chunksText ?cs = [27, 91] @ ustr ''0m hi there''"
    by (simp add: chunksText_def ustr_def)
  from textChunksToAnsi_strip [OF n] t h x have
    "stripAnsi (textChunksToAnsi ?cs) = [27, 91] @ ustr ''0m hi there''"
    by (simp only:)
  then have r: "stripAnsi (textChunksToAnsi ?cs) = [27, 91] @ ustr ''0m hi there''" .
  have n': "list_all natColours ?cs" using n by (simp only: list_all_iff)
  have h': "list_all (\<lambda>r. \<not> hasAnsi r) [[27, 91], ustr ''0m hi '', ustr ''there'']"
    using h by (simp only: list_all_iff)
  have a: "hasAnsi (chunksText ?cs)" unfolding x by (simp add: ustr_def isCodeChar_def)
  show ?thesis
    by (intro conjI) (rule n' t h' a r)+
qed

lemma stripAnsi_no_esc: "27 \<notin> set t \<Longrightarrow> stripAnsi t = t"
  by (induction t rule: stripAnsi.induct) (auto split: option.splits if_splits elim: ansiSeq.elims)

lemma escapesComplete_strip: "escapesComplete t \<Longrightarrow> 27 \<notin> set (stripAnsi t)"
  by (induction t rule: stripAnsi.induct) (auto split: option.splits)

text \<open>
  Claim C9, as stated, fails where removing a sequence joins the text around it into a new
  one: in \<open>ESC [ ESC [ 0 m 0 m\<close> the inner sequence is removed and leaves \<open>ESC [ 0 m\<close>, of
  width 4, which a second stripping removes.
\<close>

theorem visibleWidth_strip_counterexample:
  "visibleWidth [27, 91, 27, 91, 48, 109, 48, 109] = 4 \<and>
   visibleWidth (stripAnsi [27, 91, 27, 91, 48, 109, 48, 109]) = 0"
  by (simp add: visibleWidth_def isCodeChar_def)

text \<open>
  Claim C9, amended: for every string in which every ESC character begins a complete
  escape sequence (ESC, an opening bracket, digits and semicolons, then m),
  \<open>visibleWidth (stripAnsi text)\<close> equals \<open>visibleWidth text\<close>.
\<close>

theorem visibleWidth_strip:
  "escapesComplete t \<Longrightarrow> visibleWidth (stripAnsi t) = visibleWidth t"
  by (simp add: visibleWidth_def stripAnsi_no_esc escapesComplete_strip)

theorem visibleWidth_strip_witness:
  "escapesComplete ([27, 91, 49, 109] @ ustr ''bold'' @ [27, 91, 48, 109]) \<and>
   visibleWidth (stripAnsi ([27, 91, 49, 109] @ ustr ''bold'' @ [27, 91, 48, 109])) = 4 \<and>
   visibleWidth ([27, 91, 49, 109] @ ustr ''bold'' @ [27, 91, 48, 109]) = 4"
proof -
  have h: "escapesComplete ([27, 91, 49, 109] @ ustr ''bold'' @ [27, 91, 48, 109])"
    by (simp add: ustr_def isCodeChar_def)
  have w: "visibleWidth ([27, 91, 49, 109] @ ustr ''bold'' @ [27, 91, 48, 109]) = 4"
    by (simp add: visibleWidth_def ustr_def isCodeChar_def)
  from visibleWidth_strip [OF h] h w show ?thesis by simp
qed

lemma AnsiColors_defined:
  "(30 \<le> code \<and> code \<le> 37) \<or> (90 \<le> code \<and> code \<le> 97) \<Longrightarrow> \<exists>rgb. AnsiColors code = Some rgb"
  unfolding AnsiColors_def by (simp; presburger)

lemma AnsiBgColors_defined:
  "(40 \<le> code \<and> code \<le> 47) \<or> (100 \<le> code \<and> code \<le> 107) \<Longrightarrow> \<exists>rgb. AnsiBgColors code = Some rgb"
  unfolding AnsiBgColors_def by (simp; presburger)

lemma codeStep_total: "\<exists>r. codeStep code rest st = Inr r"
proof -
  have low: "30 \<le> code \<Longrightarrow> code \<noteq> 0 \<and> code \<noteq> 1 \<and> code \<noteq> 2 \<and> code \<noteq> 3 \<and> code \<noteq> 4
      \<and> code \<noteq> 5 \<and> code \<noteq> 7 \<and> code \<noteq> 9"
    by auto
  consider (f1) "30 \<le> code" "code \<le> 37"
    | (b1) "40 \<le> code" "code \<le> 47"
    | (f2) "90 \<le> code" "code \<le> 97"
    | (b2) "100 \<le> code" "code \<le> 107"
    | (other) "\<not> (30 \<le> code \<and> code \<le> 37)" "\<not> (90 \<le> code \<and> code \<le> 97)"
        "\<not> (40 \<le> code \<and> code \<le> 47)" "\<not> (100 \<le> code \<and> code \<le> 107)"
    by blast
  then show ?thesis
  proof cases
    case f1
    then obtain rgb where c: "AnsiColors code = Some rgb" using AnsiColors_defined by blast
    from f1 low have "codeStep code rest st = Inr (0, st\<lparr>cur_fg := Some (rgb255 rgb)\<rparr>)"
      unfolding codeStep_def by (simp add: c split del: if_split)
    then show ?thesis by blast
  next
    case b1
    then obtain rgb where c: "AnsiBgColors code = Some rgb" using AnsiBgColors_defined by blast
    from b1 have "\<not> (30 \<le> code \<and> code \<le> 37)" "30 \<le> code" by auto
    with b1 low have "codeStep code rest st = Inr (0, st\<lparr>cur_bg := Some (rgb255 rgb)\<rparr>)"
      unfolding codeStep_def by (simp add: c split del: if_split)
    then show ?thesis by blast
  next
    case f2
    then obtain rgb where c: "AnsiColors code = Some rgb" using AnsiColors_defined by blast
    from f2 have "\<not> (30 \<le> code \<and> code \<le> 37)" "\<not> (40 \<le> code \<and> code \<le> 47)" "30 \<le> code"
      by auto
    with f2 low have "codeStep code rest st = Inr (0, st\<lparr>cur_fg := Some (rgb255 rgb)\<rparr>)"
      unfolding codeStep_def by (simp add: c split del: if_split)
    then show ?thesis by blast
  next
    case b2
    then obtain rgb where c: "AnsiBgColors code = Some rgb" using AnsiBgColors_defined by blast
    from b2 have "\<not> (30 \<le> code \<and> code \<le> 37)" "\<not> (40 \<le> code \<and> code \<le> 47)"
      "\<not> (90 \<le> code \<and> code \<le> 97)" "30 \<le> code"
      by auto
    with b2 low have "codeStep code rest st = Inr (0, st\<lparr>cur_bg := Some (rgb255 rgb)\<rparr>)"
      unfolding codeStep_def by (simp add: c split del: if_split)
    then show ?thesis by blast
  next
    case other
    show ?thesis unfolding codeStep_def using other by (simp, blast)
  qed
qed

lemma applyCodes_total: "\<exists>st'. applyCodes codes st = Inr st'"
proof (induction "length codes" arbitrary: codes st rule: less_induct)
  case less
  show ?case
  proof (cases codes)
    case Nil
    then show ?thesis by simp
  next
    case (Cons code rest)
    obtain skip st1 where r: "codeStep code rest st = Inr (skip, st1)"
      using codeStep_total [of code rest st] by auto
    have "length (drop skip rest) < length codes" using Cons by simp
    from less [OF this, of st1] r Cons show ?thesis by simp
  qed
qed

lemma ansiScan_total: "\<exists>out. ansiScan st pending s chunks = Inr out"
proof (induction st pending s chunks rule: ansiScan.induct)
  case (1 st pending chunks)
  show ?case by simp
next
  case (2 st pending c cs chunks)
  show ?case
  proof (cases "ansiSeq (c # cs)")
    case None
    with 2 show ?thesis by simp
  next
    case (Some pr)
    obtain params rest where pr: "pr = (params, rest)" by (cases pr)
    obtain st' where st': "applyCodes (map Number (splitOn 59 params)) st = Inr st'"
      using applyCodes_total by blast
    from 2(2) [OF Some [unfolded pr] refl st'] Some pr st' show ?thesis by simp
  qed
qed

lemma ansiToStyledText_total: "\<exists>chunks. ansiToStyledText input = Inr chunks"
  unfolding ansiToStyledText_def by (rule ansiScan_total)

text \<open>
  Claim C4 names \<open>hidden\<close> among the attribute codes the parser recognises. The serialiser
  writes code 8 for \<open>Attr_HIDDEN\<close>; the parser has no branch for code 8 and drops it, so a
  hidden chunk does not survive the round trip, while a bold one does.
\<close>

theorem ansiToStyledText_hidden_ignored:
  "textChunksToAnsi [\<lparr>chunk_text = ustr ''x'', fg = None, bg = None, attributes = Attr_HIDDEN\<rparr>]
     = [27, 91, 56, 109] @ ustr ''x'' @ [27, 91, 48, 109] \<and>
   ansiToStyledText ([27, 91, 56, 109] @ ustr ''x'' @ [27, 91, 48, 109])
     = Inr [\<lparr>chunk_text = ustr ''x'', fg = None, bg = None, attributes = 0\<rparr>] \<and>
   ansiToStyledText ([27, 91, 49, 109] @ ustr ''x'' @ [27, 91, 48, 109])
     = Inr [\<lparr>chunk_text = ustr ''x'', fg = None, bg = None, attributes = Attr_BOLD\<rparr>]"
  by (simp add: textChunksToAnsi_def chunkToAnsi_def attrCodes_def fgCode_def bgCode_def
      Attr_defs csi_def ustr_def ansiToStyledText_def isCodeChar_def Number_def styledChunk_def
      codeStep_def)

section \<open>Roles of a loaded theme\<close>

lemma resolve_missing_white:
  "theme key = None \<Longrightarrow> resolve theme defs mode key = Inr white"
  by (simp add: resolve_def falsy_def)

lemma andThen_Inr: "andThen m f = Inr y \<Longrightarrow> \<exists>x. m = Inr x \<and> f x = Inr y"
  by (cases m) (simp_all add: andThen_def)

lemma andThen_Inl: "andThen (Inl e) f = Inl e"
  by (simp add: andThen_def)

lemma andThen_Inr_eq: "andThen (Inr x) f = f x"
  by (simp add: andThen_def)

text \<open>
  When \<open>loadTheme\<close> returns, each role of the result is what \<open>resolve\<close> returned for its
  key.
\<close>

lemma loadTheme_field:
  assumes "loadTheme THEMES opencode themeName mode = Inr t" and "(key, sel) \<in> set roles"
  shows "resolve (themeObject THEMES opencode themeName)
           (case td_defs (themeDataOf THEMES opencode themeName) of
              None \<Rightarrow> Map.empty | Some d \<Rightarrow> d)
           mode key = Inr (sel t)"
proof -
  let ?res = "resolve (themeObject THEMES opencode themeName)
           (case td_defs (themeDataOf THEMES opencode themeName) of
              None \<Rightarrow> Map.empty | Some d \<Rightarrow> d) mode"
  from assms(1) obtain c1 c2 c3 c4 c5 c6 c7 c8 c9 c10 c11 c12 c13 c14 c15 c16 c17 c18 c19 c20
    c21 c22
    where r: "?res (ustr ''text'') = Inr c1" "?res (ustr ''textMuted'') = Inr c2"
      "?res (ustr ''accent'') = Inr c3" "?res (ustr ''primary'') = Inr c4"
      "?res (ustr ''border'') = Inr c5" "?res (ustr ''background'') = Inr c6"
      "?res (ustr ''backgroundPanel'') = Inr c7" "?res (ustr ''backgroundElement'') = Inr c8"
      "?res (ustr ''markdownText'') = Inr c9" "?res (ustr ''markdownHeading'') = Inr c10"
      "?res (ustr ''markdownLink'') = Inr c11" "?res (ustr ''markdownLinkText'') = Inr c12"
      "?res (ustr ''markdownCode'') = Inr c13" "?res (ustr ''markdownCodeBlock'') = Inr c14"
      "?res (ustr ''markdownBlockQuote'') = Inr c15" "?res (ustr ''markdownEmph'') = Inr c16"
      "?res (ustr ''markdownStrong'') = Inr c17" "?res (ustr ''markdownListItem'') = Inr c18"
      "?res (ustr ''markdownListEnumeration'') = Inr c19"
      "?res (ustr ''markdownHorizontalRule'') = Inr c20"
      "?res (ustr ''diffAdded'') = Inr c21" "?res (ustr ''diffRemoved'') = Inr c22"
      and t: "t = \<lparr>text' = c1, textMuted = c2, accent = c3, primary = c4, border = c5,
              background = c6, backgroundPanel = c7, backgroundElement = c8,
              markdownText = c9, markdownHeading = c10, markdownLink = c11,
              markdownLinkText = c12, markdownCode = c13, markdownCodeBlock = c14,
              markdownBlockQuote = c15, markdownEmph = c16, markdownStrong = c17,
              markdownListItem = c18, markdownListEnumeration = c19,
              markdownHorizontalRule = c20, diffAdded = c21,
              diffRemoved = c22\<rparr>"
    unfolding loadTheme_def Let_def themeObject_def [symmetric]
    by (auto dest!: andThen_Inr)
  from assms(2) show ?thesis unfolding roles_def using r by (auto simp: t)
qed


text \<open>
  A role whose value is missing from the theme data is white in the theme that \<open>loadTheme\<close>
  returns.
\<close>

lemma loadTheme_missing_role_white:
  assumes "loadTheme THEMES opencode themeName mode = Inr t" and "(key, sel) \<in> set roles"
    and "themeObject THEMES opencode themeName key = None"
  shows "sel t = \<lparr>tui_r = Num 1, tui_g = Num 1, tui_b = Num 1, tui_a = Num 1\<rparr>"
  using loadTheme_field [OF assms(1,2)]
    resolve_missing_white [of "themeObject THEMES opencode themeName" key, OF assms(3)]
  by (simp add: white_def)

text \<open>\<open>resolve\<close> throws exactly when the value of the role leads to an inherited member.\<close>

lemma resolve_throws_iff:
  "resolve theme defs mode key = Inl e \<longleftrightarrow>
     e = TypeError \<and>
     (\<exists>c. theme key = Some c \<and> \<not> falsy (Some c) \<and> resolveColor c defs mode = JMember)"
  by (auto simp: resolve_def hexToRGBA_def Let_def split: option.splits jsvalue.splits)

lemma loadTheme_returns:
  assumes "\<forall>key\<in>set (map fst roles).
      \<exists>c. resolve (themeObject THEMES opencode themeName)
             (case td_defs (themeDataOf THEMES opencode themeName) of
                None \<Rightarrow> Map.empty | Some d \<Rightarrow> d) mode key = Inr c"
  shows "\<exists>t. loadTheme THEMES opencode themeName mode = Inr t"
proof -
  let ?res = "resolve (themeObject THEMES opencode themeName)
           (case td_defs (themeDataOf THEMES opencode themeName) of
              None \<Rightarrow> Map.empty | Some d \<Rightarrow> d) mode"
  have e: "\<exists>c. ?res key = Inr c" if "key \<in> set (map fst roles)" for key
    using assms that by blast
  have m: "ustr ''text'' \<in> set (map fst roles)"
    "ustr ''textMuted'' \<in> set (map fst roles)"
    "ustr ''accent'' \<in> set (map fst roles)"
    "ustr ''primary'' \<in> set (map fst roles)"
    "ustr ''border'' \<in> set (map fst roles)"
    "ustr ''background'' \<in> set (map fst roles)"
    "ustr ''backgroundPanel'' \<in> set (map fst roles)"
    "ustr ''backgroundElement'' \<in> set (map fst roles)"
    "ustr ''markdownText'' \<in> set (map fst roles)"
    "ustr ''markdownHeading'' \<in> set (map fst roles)"
    "ustr ''markdownLink'' \<in> set (map fst roles)"
    "ustr ''markdownLinkText'' \<in> set (map fst roles)"
    "ustr ''markdownCode'' \<in> set (map fst roles)"
    "ustr ''markdownCodeBlock'' \<in> set (map fst roles)"
    "ustr ''markdownBlockQuote'' \<in> set (map fst roles)"
    "ustr ''markdownEmph'' \<in> set (map fst roles)"
    "ustr ''markdownStrong'' \<in> set (map fst roles)"
    "ustr ''markdownListItem'' \<in> set (map fst roles)"
    "ustr ''markdownListEnumeration'' \<in> set (map fst roles)"
    "ustr ''markdownHorizontalRule'' \<in> set (map fst roles)"
    "ustr ''diffAdded'' \<in> set (map fst roles)"
    "ustr ''diffRemoved'' \<in> set (map fst roles)"
    by (simp_all add: roles_def)
  obtain c1 where r1: "?res (ustr ''text'') = Inr c1" using e [OF m(1)] by blast
  obtain c2 where r2: "?res (ustr ''textMuted'') = Inr c2" using e [OF m(2)] by blast
  obtain c3 where r3: "?res (ustr ''accent'') = Inr c3" using e [OF m(3)] by blast
  obtain c4 where r4: "?res (ustr ''primary'') = Inr c4" using e [OF m(4)] by blast
  obtain c5 where r5: "?res (ustr ''border'') = Inr c5" using e [OF m(5)] by blast
  obtain c6 where r6: "?res (ustr ''background'') = Inr c6" using e [OF m(6)] by blast
  obtain c7 where r7: "?res (ustr ''backgroundPanel'') = Inr c7" using e [OF m(7)] by blast
  obtain c8 where r8: "?res (ustr ''backgroundElement'') = Inr c8" using e [OF m(8)] by blast
  obtain c9 where r9: "?res (ustr ''markdownText'') = Inr c9" using e [OF m(9)] by blast
  obtain c10 where r10: "?res (ustr ''markdownHeading'') = Inr c10" using e [OF m(10)] by blast
  obtain c11 where r11: "?res (ustr ''markdownLink'') = Inr c11" using e [OF m(11)] by blast
  obtain c12 where r12: "?res (ustr ''markdownLinkText'') = Inr c12" using e [OF m(12)] by blast
  obtain c13 where r13: "?res (ustr ''markdownCode'') = Inr c13" using e [OF m(13)] by blast
  obtain c14 where r14: "?res (ustr ''markdownCodeBlock'') = Inr c14" using e [OF m(14)] by blast
  obtain c15 where r15: "?res (ustr ''markdownBlockQuote'') = Inr c15" using e [OF m(15)] by blast
  obtain c16 where r16: "?res (ustr ''markdownEmph'') = Inr c16" using e [OF m(16)] by blast
  obtain c17 where r17: "?res (ustr ''markdownStrong'') = Inr c17" using e [OF m(17)] by blast
  obtain c18 where r18: "?res (ustr ''markdownListItem'') = Inr c18" using e [OF m(18)] by blast
  obtain c19 where r19: "?res (ustr ''markdownListEnumeration'') = Inr c19" using e [OF m(19)] by blast
  obtain c20 where r20: "?res (ustr ''markdownHorizontalRule'') = Inr c20" using e [OF m(20)] by blast
  obtain c21 where r21: "?res (ustr ''diffAdded'') = Inr c21" using e [OF m(21)] by blast
  obtain c22 where r22: "?res (ustr ''diffRemoved'') = Inr c22" using e [OF m(22)] by blast
  note r = r1 r2 r3 r4 r5 r6 r7 r8 r9 r10 r11 r12 r13 r14 r15 r16 r17 r18 r19 r20 r21 r22
  show ?thesis
    unfolding loadTheme_def Let_def themeObject_def [symmetric]
    by (simp only: r andThen_Inr_eq) blast
qed


text \<open>
  Claim C3: on the line \<open>**bold *and italic* text**\<close> the inline tokenizer adds exactly
  three fragments, in order: \<open>bold \<close> in the strong colour with the bold attribute,
  \<open>and italic\<close> in the strong colour with bold and italic, and \<open> text\<close> in the strong
  colour with bold.
\<close>

theorem renderInline_nested_emphasis:
  "renderInlineThemedWithDefault (ustr ''**bold *and italic* text**'') theme chunks
     defaultColor defaultAttrs =
   chunks @
   [\<lparr>chunk_text = ustr ''bold '', fg = Some (markdownStrong theme), bg = None,
      attributes = Attr_BOLD\<rparr>,
    \<lparr>chunk_text = ustr ''and italic'', fg = Some (markdownStrong theme), bg = None,
      attributes = Attr_BOLD OR Attr_ITALIC\<rparr>,
    \<lparr>chunk_text = ustr '' text'', fg = Some (markdownStrong theme), bg = None,
      attributes = Attr_BOLD\<rparr>]"
  by (simp add: renderInlineThemedWithDefault.simps ustr_def inlineAt_def orElse_def
      altBoldItalic_def altBold_def altItalic_def altCode_def altLink_def altStrike_def
      startsWith_def lazyUntil1_def isLineTerminator_def emitMatch_def nestedHere_def
      addChunk_def split del: if_split)

lemma foldl_calcWidth:
  "foldl (\<lambda>a b. a + b + 3) acc ws = acc + sum_list ws + 3 * length ws"
  by (induction ws arbitrary: acc) simp_all

lemma calcWidth_sum: "calcWidth ws = sum_list ws + 3 * length ws + 1"
  by (simp add: calcWidth_def foldl_calcWidth)

lemma shrinkStep_widest:
  assumes "list_ex (\<lambda>w. w > 10) ws"
  shows "indexOf ws (maxOf ws) < length ws"
    and "ws ! indexOf ws (maxOf ws) = maxOf ws"
    and "10 < maxOf ws"
    and "shrinkStep ws = ws[indexOf ws (maxOf ws) := maxOf ws - 1]"
proof -
  from assms obtain w where w: "w \<in> set ws" "w > 10" by (auto simp: list_ex_iff)
  then have ne: "ws \<noteq> []" by auto
  show i: "indexOf ws (maxOf ws) < length ws" using maxOf_mem [OF ne] by (rule indexOf_less)
  show v: "ws ! indexOf ws (maxOf ws) = maxOf ws" using maxOf_mem [OF ne] by (rule indexOf_nth)
  show big: "10 < maxOf ws" using maxOf_ge [OF w(1)] w(2) by simp
  from big have "max 10 (maxOf ws - 1) = maxOf ws - 1" by simp
  with v show "shrinkStep ws = ws[indexOf ws (maxOf ws) := maxOf ws - 1]"
    by (simp add: shrinkStep_def Let_def)
qed

lemma shrinkStep_length: "length (shrinkStep ws) = length ws"
  by (simp add: shrinkStep_def Let_def)

lemma shrinkColumns_props:
  "length (shrinkColumns mw ws) = length ws \<and>
   (\<forall>i<length ws. (ws ! i \<le> 10 \<longrightarrow> shrinkColumns mw ws ! i = ws ! i) \<and>
                    (10 < ws ! i \<longrightarrow> 10 \<le> shrinkColumns mw ws ! i \<and> shrinkColumns mw ws ! i \<le> ws ! i)) \<and>
   \<not> shrinkMore mw (shrinkColumns mw ws) \<and>
   (\<exists>n. shrinkColumns mw ws = (shrinkStep ^^ n) ws \<and>
        (\<forall>k<n. shrinkMore mw ((shrinkStep ^^ k) ws)))"
proof (induction mw ws rule: shrinkColumns.induct)
  case (1 mw ws)
  show ?case
  proof (cases "shrinkMore mw ws")
    case False
    then have r: "shrinkColumns mw ws = ws" by (simp add: shrinkColumns.simps)
    have "shrinkColumns mw ws = (shrinkStep ^^ 0) ws \<and> (\<forall>k<0. shrinkMore mw ((shrinkStep ^^ k) ws))"
      using r by simp
    then have "\<exists>n. shrinkColumns mw ws = (shrinkStep ^^ n) ws \<and>
        (\<forall>k<n. shrinkMore mw ((shrinkStep ^^ k) ws))" by blast
    with False r show ?thesis by simp
  next
    case True
    let ?ws' = "shrinkStep ws"
    let ?r = "shrinkColumns mw ?ws'"
    let ?m = "indexOf ws (maxOf ws)"
    have r: "shrinkColumns mw ws = ?r" using True by (subst shrinkColumns.simps) simp
    from True have ex: "list_ex (\<lambda>w. w > 10) ws" by (simp add: shrinkMore_def)
    note w = shrinkStep_widest [OF ex]
    have IH: "length ?r = length ?ws'"
      "\<And>i. i < length ?ws' \<Longrightarrow> (?ws' ! i \<le> 10 \<longrightarrow> ?r ! i = ?ws' ! i) \<and>
                    (10 < ?ws' ! i \<longrightarrow> 10 \<le> ?r ! i \<and> ?r ! i \<le> ?ws' ! i)"
      "\<not> shrinkMore mw ?r"
      "\<exists>n. ?r = (shrinkStep ^^ n) ?ws' \<and> (\<forall>k<n. shrinkMore mw ((shrinkStep ^^ k) ?ws'))"
      using "1.IH" [OF True] by auto
    have len: "length ?ws' = length ws" by (rule shrinkStep_length)
    have bounds: "(ws ! i \<le> 10 \<longrightarrow> ?r ! i = ws ! i) \<and>
                    (10 < ws ! i \<longrightarrow> 10 \<le> ?r ! i \<and> ?r ! i \<le> ws ! i)" if i: "i < length ws" for i
    proof (cases "i = ?m")
      case True
      then have "?ws' ! i = ws ! i - 1" "10 < ws ! i" using w i by simp_all
      with IH(2) [of i] i len show ?thesis by (cases "?ws' ! i \<le> 10") auto
    next
      case False
      then have "?ws' ! i = ws ! i" using w(4) by simp
      with IH(2) [of i] i len show ?thesis by simp
    qed
    from IH(4) obtain n where n: "?r = (shrinkStep ^^ n) ?ws'"
      "\<forall>k<n. shrinkMore mw ((shrinkStep ^^ k) ?ws')" by blast
    have "shrinkColumns mw ws = (shrinkStep ^^ Suc n) ws"
      using n(1) r by (simp add: funpow_swap1)
    moreover have "\<forall>k<Suc n. shrinkMore mw ((shrinkStep ^^ k) ws)"
    proof (intro allI impI)
      fix k assume "k < Suc n"
      show "shrinkMore mw ((shrinkStep ^^ k) ws)"
      proof (cases k)
        case 0
        with True show ?thesis by simp
      next
        case (Suc j)
        with \<open>k < Suc n\<close> n(2) have "shrinkMore mw ((shrinkStep ^^ j) ?ws')" by simp
        with Suc show ?thesis by (simp add: funpow_swap1)
      qed
    qed
    ultimately have "\<exists>n. shrinkColumns mw ws = (shrinkStep ^^ n) ws \<and>
        (\<forall>k<n. shrinkMore mw ((shrinkStep ^^ k) ws))" by blast
    with r IH(1,3) len bounds show ?thesis by simp
  qed
qed

text \<open>
  Claim C2: the column-shrink loop of \<open>renderTableThemed\<close> terminates for every list of
  natural widths and every terminal width: it is \<open>n\<close> turns of the loop body for some \<open>n\<close>,
  the loop condition holding before each turn and failing after the last. Each turn takes
  1 from the first widest column, which is wider than 10. On exit the total width (the sum
  of the widths, 3 per column, and 1) is at most \<open>cols - 4\<close> or no column is wider than 10;
  a column that started at 10 or less is unchanged, and one that started above 10 is still
  at least 10.
\<close>

theorem shrinkColumns_terminates_floor:
  "(\<exists>n. shrinkColumns (cols - 4) ws = (shrinkStep ^^ n) ws \<and>
        (\<forall>k<n. shrinkMore (cols - 4) ((shrinkStep ^^ k) ws)) \<and>
        \<not> shrinkMore (cols - 4) ((shrinkStep ^^ n) ws)) \<and>
   (\<forall>v. list_ex (\<lambda>w. w > 10) v \<longrightarrow>
        indexOf v (maxOf v) < length v \<and> v ! indexOf v (maxOf v) = maxOf v \<and> 10 < maxOf v \<and>
        (\<forall>w\<in>set v. w \<le> maxOf v) \<and>
        shrinkStep v = v[indexOf v (maxOf v) := maxOf v - 1]) \<and>
   length (shrinkColumns (cols - 4) ws) = length ws \<and>
   (\<forall>i<length ws.
      (ws ! i \<le> 10 \<longrightarrow> shrinkColumns (cols - 4) ws ! i = ws ! i) \<and>
      (10 < ws ! i \<longrightarrow> 10 \<le> shrinkColumns (cols - 4) ws ! i \<and>
                         shrinkColumns (cols - 4) ws ! i \<le> ws ! i)) \<and>
   (int (sum_list (shrinkColumns (cols - 4) ws) + 3 * length ws + 1) \<le> cols - 4 \<or>
    list_all (\<lambda>w. w \<le> 10) (shrinkColumns (cols - 4) ws)) \<and>
   calcWidth ws = sum_list ws + 3 * length ws + 1"
proof -
  note p = shrinkColumns_props [of "cols - 4" ws]
  from p obtain n where n: "shrinkColumns (cols - 4) ws = (shrinkStep ^^ n) ws"
    "\<forall>k<n. shrinkMore (cols - 4) ((shrinkStep ^^ k) ws)" by blast
  from p n(1) have "\<not> shrinkMore (cols - 4) ((shrinkStep ^^ n) ws)" by simp
  with n have a: "\<exists>n. shrinkColumns (cols - 4) ws = (shrinkStep ^^ n) ws \<and>
        (\<forall>k<n. shrinkMore (cols - 4) ((shrinkStep ^^ k) ws)) \<and>
        \<not> shrinkMore (cols - 4) ((shrinkStep ^^ n) ws)" by blast
  have b: "\<forall>v. list_ex (\<lambda>w. w > 10) v \<longrightarrow>
        indexOf v (maxOf v) < length v \<and> v ! indexOf v (maxOf v) = maxOf v \<and> 10 < maxOf v \<and>
        (\<forall>w\<in>set v. w \<le> maxOf v) \<and>
        shrinkStep v = v[indexOf v (maxOf v) := maxOf v - 1]"
    using shrinkStep_widest maxOf_ge by blast
  from p have "\<not> shrinkMore (cols - 4) (shrinkColumns (cols - 4) ws)" by simp
  then have c: "int (sum_list (shrinkColumns (cols - 4) ws) + 3 * length ws + 1) \<le> cols - 4 \<or>
    list_all (\<lambda>w. w \<le> 10) (shrinkColumns (cols - 4) ws)"
    using p by (auto simp: shrinkMore_def calcWidth_sum list_ex_iff list_all_iff not_less)
  from a b c p calcWidth_sum show ?thesis by blast
qed

theorem shrinkColumns_terminates_floor_witness:
  "shrinkColumns (44 - 4) [30, 5, 12] = [13, 5, 12] \<and>
   list_ex (\<lambda>w. w > 10) [30, 5, 12 :: nat] \<and>
   shrinkStep [30, 5, 12] = [30, 5, 12][0 := 29] \<and>
   (1::nat) < length [30, 5, 12 :: nat] \<and> [30, 5, 12] ! 1 \<le> (10::nat) \<and>
   shrinkColumns (44 - 4) [30, 5, 12] ! 1 = [30, 5, 12] ! 1 \<and>
   (0::nat) < length [30, 5, 12 :: nat] \<and> (10::nat) < [30, 5, 12] ! 0 \<and>
   10 \<le> shrinkColumns (44 - 4) [30, 5, 12] ! 0 \<and>
   int (sum_list (shrinkColumns (44 - 4) [30, 5, 12]) + 3 * length [30, 5, 12 :: nat] + 1) \<le> 44 - 4"
proof -
  have e: "shrinkColumns (44 - 4) [30, 5, 12] = [13, 5, 12]"
    by (simp add: shrinkColumns.simps shrinkMore_def shrinkStep_def calcWidth_def indexOf_def
        maxOf_def split del: if_split)
  have ex: "list_ex (\<lambda>w. w > 10) [30, 5, 12 :: nat]" by simp
  have m: "maxOf [30, 5, 12] = 30" "indexOf [30, 5, 12] 30 = 0"
    by (simp_all add: maxOf_def indexOf_def)
  note t = shrinkColumns_terminates_floor [of 44 "[30, 5, 12]"]
  from t ex have "shrinkStep [30, 5, 12] = [30, 5, 12][indexOf [30, 5, 12] (maxOf [30, 5, 12])
      := maxOf [30, 5, 12] - 1]" by blast
  then have s: "shrinkStep [30, 5, 12] = [30, 5, 12][0 := 29]" by (simp add: m)
  have i1: "(1::nat) < length [30, 5, 12 :: nat]" "[30, 5, 12] ! 1 \<le> (10::nat)" by simp_all
  with t have r1: "shrinkColumns (44 - 4) [30, 5, 12] ! 1 = [30, 5, 12] ! 1" by blast
  have i0: "(0::nat) < length [30, 5, 12 :: nat]" "(10::nat) < [30, 5, 12] ! 0" by simp_all
  with t have r0: "10 \<le> shrinkColumns (44 - 4) [30, 5, 12] ! 0" by blast
  have w: "int (sum_list (shrinkColumns (44 - 4) [30, 5, 12]) + 3 * length [30, 5, 12 :: nat] + 1)
      \<le> 44 - 4" unfolding e by simp
  from e ex s i1 r1 i0 r0 w show ?thesis by blast
qed

section \<open>Totality of the themed renderer\<close>

lemmas string_defs = ustr_def trim_def trimStart_def trimEnd_def isWhiteSpace_def startsWith_def
  endsWith_def isLineTerminator_def

text \<open>
  Claim C6 says the themed renderer returns for every document and every terminal width.
  A horizontal rule is drawn with \<open>Box.horizontal.repeat(cols - 4)\<close>, which throws a
  RangeError when the terminal is narrower than 4 columns.
\<close>

theorem renderMarkdownThemedStyled_narrow_rule_throws:
  "renderMarkdownThemedStyled sw stdoutColumns (ustr ''---'') tuiTheme (Some 3) = Inl RangeError"
  by (simp add: renderMarkdownThemedStyled_def colsOf_def renderLine_def Let_def string_defs
      isTableLine_def headerMatch_def isHorizontalRule_def repeat_def initialState_def
      split del: if_split)

text \<open>From 4 columns on, nothing in the loop throws.\<close>

lemma renderLine_total:
  "4 \<le> cols \<Longrightarrow> \<exists>st'. renderLine sw theme cols line next st = Inr st'"
  by (simp add: renderLine_def Let_def repeat_def split: option.splits prod.splits)

lemma renderLines_total:
  "4 \<le> cols \<Longrightarrow> \<exists>st'. renderLines sw theme cols ls st = Inr st'"
proof (induction ls arbitrary: st)
  case Nil
  show ?case by simp
next
  case (Cons l ls)
  from renderLine_total [OF Cons.prems]
  obtain st1 where "renderLine sw theme cols l (case ls of [] \<Rightarrow> None | n # ns \<Rightarrow> Some n) st = Inr st1"
    by blast
  with Cons.IH [OF Cons.prems, of st1] show ?case by simp
qed

lemma renderMarkdownThemedStyled_total:
  "4 \<le> colsOf optCols stdoutColumns \<Longrightarrow>
   \<exists>chunks. renderMarkdownThemedStyled sw stdoutColumns md tuiTheme optCols = Inr chunks"
proof -
  assume "4 \<le> colsOf optCols stdoutColumns"
  from renderLines_total [OF this]
  obtain st' where "renderLines sw (internalTheme tuiTheme) (colsOf optCols stdoutColumns)
      (splitOn 10 md) initialState = Inr st'" by blast
  then show ?thesis by (simp add: renderMarkdownThemedStyled_def Let_def)
qed

section \<open>Unterminated code fences\<close>

lemma splitOn_not_Nil [simp]: "splitOn d s \<noteq> []"
  by (induction s) (auto split: list.splits)

lemma splitOn_append_sep: "splitOn d (a @ d # b) = splitOn d a @ splitOn d b"
proof (induction a)
  case Nil
  show ?case by simp
next
  case (Cons c a)
  obtain x xs where x: "splitOn d a = x # xs" by (cases "splitOn d a") simp_all
  with Cons show ?case by simp
qed

lemma splitOn_fence: "splitOn 10 (ustr ''```'') = [ustr ''```'']"
  by (simp add: ustr_def)

lemma fenceLine_fence: "fenceLine (ustr ''```'')"
  by (simp add: fenceLine_def ustr_def trim_def trimStart_def trimEnd_def isWhiteSpace_def
      startsWith_def)

subsection \<open>The themed renderer\<close>

lemma renderLine_fence:
  "fenceLine l \<Longrightarrow>
   renderLine sw theme cols l next st =
     (if rs_inCodeBlock st then Inr (st\<lparr>rs_inCodeBlock := False, rs_codeBlockLang := []\<rparr>)
      else Inr (st\<lparr>rs_inCodeBlock := True, rs_codeBlockLang := trim (drop 3 (trim l))\<rparr>))"
  by (simp add: renderLine_def fenceLine_def Let_def)

lemma renderLine_code:
  "\<not> fenceLine l \<Longrightarrow> rs_inCodeBlock st \<Longrightarrow>
   renderLine sw theme cols l next st =
     Inr (st\<lparr>rs_chunks := codeLine theme (rs_codeBlockLang st) l (rs_chunks st)\<rparr>)"
  by (simp add: renderLine_def fenceLine_def Let_def)

lemma renderLine_other:
  "\<not> fenceLine l \<Longrightarrow> \<not> rs_inCodeBlock st \<Longrightarrow> renderLine sw theme cols l next st = Inr st' \<Longrightarrow>
   \<not> rs_inCodeBlock st'"
  by (auto simp: renderLine_def fenceLine_def Let_def split: option.splits if_splits sum.splits)

lemma renderLine_inCodeBlock:
  assumes "renderLine sw theme cols l next st = Inr st'"
  shows "rs_inCodeBlock st' = (if fenceLine l then \<not> rs_inCodeBlock st else rs_inCodeBlock st)"
proof (cases "fenceLine l")
  case True
  with assms show ?thesis by (auto simp: renderLine_fence split: if_splits)
next
  case False
  show ?thesis
  proof (cases "rs_inCodeBlock st")
    case True
    with False assms show ?thesis by (auto simp: renderLine_code)
  next
    case nin: False
    with False assms renderLine_other show ?thesis by auto
  qed
qed

text \<open>Where the line after matters: only for a table row outside a code block.\<close>

lemma renderLine_next_irrelevant:
  "fenceLine l \<or> rs_inCodeBlock st \<Longrightarrow>
   renderLine sw theme cols l next st = renderLine sw theme cols l next' st"
  by (cases "fenceLine l") (auto simp: renderLine_fence renderLine_code)

lemma fenceOpenFrom_Cons:
  "fenceOpenFrom b (l # ls) = fenceOpenFrom (if fenceLine l then \<not> b else b) ls"
  by (simp add: fenceOpenFrom_def)

lemma renderLines_close:
  assumes "fenceOpenFrom (rs_inCodeBlock st) ls" and "fenceLine f"
  shows "renderLines sw theme cols (ls @ [f]) st =
     (case renderLines sw theme cols ls st of
        Inl e \<Rightarrow> Inl e
      | Inr st' \<Rightarrow> Inr (st'\<lparr>rs_inCodeBlock := False, rs_codeBlockLang := []\<rparr>))"
  using assms(1)
proof (induction ls arbitrary: st)
  case Nil
  then have "rs_inCodeBlock st" by (simp add: fenceOpenFrom_def)
  with assms(2) show ?case by (simp add: renderLine_fence)
next
  case (Cons l ls)
  show ?case
  proof (cases ls)
    case Nil
    with Cons.prems have o: "fenceLine l \<or> rs_inCodeBlock st"
      by (auto simp: fenceOpenFrom_def split: if_splits)
    have eq: "renderLine sw theme cols l (Some f) st = renderLine sw theme cols l None st"
      using o by (rule renderLine_next_irrelevant)
    show ?thesis
    proof (cases "renderLine sw theme cols l None st")
      case (Inl e)
      with eq Nil show ?thesis by simp
    next
      case (Inr st1)
      from renderLine_inCodeBlock [OF Inr] Cons.prems Nil have "rs_inCodeBlock st1"
        by (auto simp: fenceOpenFrom_def split: if_splits)
      with Inr eq Nil assms(2) show ?thesis by (simp add: renderLine_fence)
    qed
  next
    case (Cons l2 ls2)
    show ?thesis
    proof (cases "renderLine sw theme cols l (Some l2) st")
      case (Inl e)
      with Cons show ?thesis by simp
    next
      case (Inr st1)
      from renderLine_inCodeBlock [OF Inr] Cons.prems
      have "fenceOpenFrom (rs_inCodeBlock st1) ls" by (simp add: fenceOpenFrom_Cons)
      from Cons.IH [OF this] Inr Cons show ?thesis by simp
    qed
  qed
qed

lemma themed_close:
  assumes "fenceOpen md"
  shows "renderMarkdownThemedStyled sw stdoutColumns (md @ [10] @ ustr ''```'') tuiTheme optCols
       = renderMarkdownThemedStyled sw stdoutColumns md tuiTheme optCols"
proof -
  have s: "splitOn 10 (md @ [10] @ ustr ''```'') = splitOn 10 md @ [ustr ''```'']"
    by (simp add: splitOn_append_sep splitOn_fence)
  have o: "fenceOpenFrom (rs_inCodeBlock initialState) (splitOn 10 md)"
    using assms by (simp add: fenceOpen_def initialState_def)
  show ?thesis
    unfolding renderMarkdownThemedStyled_def Let_def s
      renderLines_close [OF o fenceLine_fence]
    by (simp split: sum.splits)
qed

subsection \<open>The segment parser\<close>

lemma segmentLine_inCodeBlock:
  "sg_inCodeBlock (segmentLine st l) = (if fenceLine l then \<not> sg_inCodeBlock st else sg_inCodeBlock st)"
  by (simp add: segmentLine_def fenceLine_def Let_def flushText_def)

lemma segment_fold_inCodeBlock:
  "sg_inCodeBlock (foldl segmentLine st ls) = fenceOpenFrom (sg_inCodeBlock st) ls"
  by (induction ls arbitrary: st) (simp_all add: fenceOpenFrom_def segmentLine_inCodeBlock)

text \<open>Inside a code block no text is waiting to be flushed.\<close>

lemma segmentLine_text_empty:
  "(sg_inCodeBlock st \<longrightarrow> sg_currentText st = []) \<Longrightarrow>
   sg_inCodeBlock (segmentLine st l) \<longrightarrow> sg_currentText (segmentLine st l) = []"
  by (simp add: segmentLine_def Let_def flushText_def)

lemma segment_fold_text_empty:
  "(sg_inCodeBlock st \<longrightarrow> sg_currentText st = []) \<Longrightarrow>
   sg_inCodeBlock (foldl segmentLine st ls) \<longrightarrow> sg_currentText (foldl segmentLine st ls) = []"
proof (induction ls arbitrary: st)
  case Nil
  then show ?case by simp
next
  case (Cons l ls)
  from Cons.IH [OF segmentLine_text_empty [OF Cons.prems]] show ?case by simp
qed

text \<open>After a line of a code block that is no fence, the block has content.\<close>

lemma segment_fold_content:
  assumes "ls \<noteq> []" and "\<not> fenceLine (last ls)" and "sg_inCodeBlock (foldl segmentLine st ls)"
  shows "sg_codeBlockContent (foldl segmentLine st ls) \<noteq> []"
proof -
  from assms(1) obtain ys l where ls: "ls = ys @ [l]" by (metis rev_exhaust)
  let ?s = "foldl segmentLine st ys"
  have f: "foldl segmentLine st ls = segmentLine ?s l" by (simp add: ls)
  from assms(2) ls have nf: "\<not> fenceLine l" by simp
  with assms(3) f have "sg_inCodeBlock ?s" by (simp add: segmentLine_inCodeBlock)
  with nf show ?thesis unfolding f by (simp add: segmentLine_def fenceLine_def Let_def)
qed

lemma segments_close:
  assumes "fenceOpen md" and "\<not> fenceLine (last (splitOn 10 md))"
  shows "parseMarkdownSegments (md @ [10] @ ustr ''```'') = parseMarkdownSegments md"
proof -
  let ?s = "foldl segmentLine segmentStart (splitOn 10 md)"
  have s: "splitOn 10 (md @ [10] @ ustr ''```'') = splitOn 10 md @ [ustr ''```'']"
    by (simp add: splitOn_append_sep splitOn_fence)
  have i: "sg_inCodeBlock ?s"
    using assms(1) by (simp add: segment_fold_inCodeBlock fenceOpen_def segmentStart_def)
  have t: "sg_currentText ?s = []"
    using segment_fold_text_empty [of segmentStart "splitOn 10 md"] i
    by (simp add: segmentStart_def)
  have c: "sg_codeBlockContent ?s \<noteq> []"
    using segment_fold_content [OF _ assms(2) i] by simp
  have a: "parseMarkdownSegments md
      = sg_segments ?s @ [CodeSegment (joinWith [10] (sg_codeBlockContent ?s)) (sg_codeBlockLang ?s)]"
    using i t c by (simp add: parseMarkdownSegments_def Let_def flushText_def segmentStart_def)
  have "segmentLine ?s (ustr ''```'') =
      ?s\<lparr>sg_segments := sg_segments ?s
             @ [CodeSegment (joinWith [10] (sg_codeBlockContent ?s)) (sg_codeBlockLang ?s)],
          sg_codeBlockContent := [], sg_inCodeBlock := False, sg_codeBlockLang := []\<rparr>"
    using i fenceLine_fence by (simp add: segmentLine_def fenceLine_def Let_def)
  then have b: "parseMarkdownSegments (md @ [10] @ ustr ''```'')
      = sg_segments ?s @ [CodeSegment (joinWith [10] (sg_codeBlockContent ?s)) (sg_codeBlockLang ?s)]"
    using t unfolding parseMarkdownSegments_def Let_def s
    by (simp add: flushText_def segmentStart_def)
  from a b show ?thesis by simp
qed

text \<open>
  Claim C7, as stated, covers the segment parser on a document whose last line is the
  opening fence itself. \<open>parseMarkdownSegments\<close> adds the unclosed block only when it has
  at least one line, so nothing is emitted there, while the closed fence gives an empty
  code segment.
\<close>

theorem unterminated_fence_counterexample:
  "fenceOpen (ustr ''```'') \<and>
   parseMarkdownSegments (ustr ''```'') = [] \<and>
   parseMarkdownSegments (ustr ''```'' @ [10] @ ustr ''```'') = [CodeSegment [] (ustr ''text'')]"
  by (simp add: fenceOpen_def fenceOpenFrom_def fenceLine_def parseMarkdownSegments_def
      segmentStart_def segmentLine_def flushText_def Let_def ustr_def trim_def trimStart_def
      trimEnd_def isWhiteSpace_def startsWith_def split del: if_split)

subsection \<open>The shape of a document that ends inside a fence\<close>

lemma fenceOpenFrom_append:
  "fenceOpenFrom b (xs @ ys) = fenceOpenFrom (fenceOpenFrom b xs) ys"
  by (simp add: fenceOpenFrom_def)

lemma fenceOpenFrom_no_fence: "list_all (\<lambda>l. \<not> fenceLine l) ls \<Longrightarrow> fenceOpenFrom b ls = b"
  by (induction ls arbitrary: b) (simp_all add: fenceOpenFrom_def)

lemma fenceOpenFrom_split:
  assumes "\<not> fenceOpenFrom False pre" and "fenceLine fence"
    and "list_all (\<lambda>l. \<not> fenceLine l) code"
  shows "fenceOpenFrom False (pre @ [fence])" and "fenceOpenFrom False (pre @ fence # code)"
proof -
  show 1: "fenceOpenFrom False (pre @ [fence])"
    using assms(1,2) by (simp add: fenceOpenFrom_append) (simp add: fenceOpenFrom_def)
  have "fenceOpenFrom False (pre @ fence # code)
      = fenceOpenFrom (fenceOpenFrom False (pre @ [fence])) code"
    using fenceOpenFrom_append [of False "pre @ [fence]" code] by simp
  with 1 assms(3) show "fenceOpenFrom False (pre @ fence # code)"
    by (simp add: fenceOpenFrom_no_fence)
qed

text \<open>
  Every document that ends inside a fence has this shape: lines that leave no fence
  open, the opening fence, and lines none of which is a fence line.
\<close>

lemma fenceOpenFrom_shape:
  assumes "fenceOpenFrom False ls"
  shows "\<exists>pre fence code. ls = pre @ fence # code \<and> \<not> fenceOpenFrom False pre \<and>
           fenceLine fence \<and> list_all (\<lambda>l. \<not> fenceLine l) code"
proof -
  have "\<exists>l\<in>set ls. fenceLine l"
  proof (rule ccontr)
    assume "\<not> (\<exists>l\<in>set ls. fenceLine l)"
    then have "list_all (\<lambda>l. \<not> fenceLine l) ls" by (simp add: list_all_iff)
    from fenceOpenFrom_no_fence [OF this, of False] assms show False by simp
  qed
  then obtain pre fence code
    where s: "ls = pre @ fence # code" "fenceLine fence" "\<forall>l\<in>set code. \<not> fenceLine l"
    using split_list_last_prop [of ls fenceLine] by blast
  from s(3) have n: "list_all (\<lambda>l. \<not> fenceLine l) code" by (simp add: list_all_iff)
  have "fenceOpenFrom False ls = fenceOpenFrom (fenceOpenFrom False (pre @ [fence])) code"
    using fenceOpenFrom_append [of False "pre @ [fence]" code] s(1) by simp
  also have "\<dots> = fenceOpenFrom False (pre @ [fence])" using n by (rule fenceOpenFrom_no_fence)
  also have "\<dots> = (\<not> fenceOpenFrom False pre)"
    using s(2) by (simp add: fenceOpenFrom_append) (simp add: fenceOpenFrom_def)
  finally have "\<not> fenceOpenFrom False pre" using assms by simp
  with s(1,2) n show ?thesis by blast
qed

lemma splitOn_lines: "l \<in> set (splitOn d s) \<Longrightarrow> d \<notin> set l"
proof (induction s arbitrary: l)
  case Nil
  then show ?case by simp
next
  case (Cons c cs)
  obtain x xs where x: "splitOn d cs = x # xs" by (cases "splitOn d cs") simp_all
  then have "x \<in> set (splitOn d cs)" by simp
  with Cons.IH have "d \<notin> set x" by blast
  moreover have "\<And>y. y \<in> set xs \<Longrightarrow> d \<notin> set y" using Cons.IH x by simp
  ultimately show ?case using Cons.prems x by (auto split: if_splits)
qed

lemma splitOn_no_sep: "d \<notin> set l \<Longrightarrow> splitOn d l = [l]"
  by (induction l) auto

lemma joinWith_Cons:
  "joinWith sep (x # xs) = (if xs = [] then x else x @ sep @ joinWith sep xs)"
  by (cases xs) simp_all

lemma splitOn_joinWith:
  "ls \<noteq> [] \<Longrightarrow> \<forall>l\<in>set ls. d \<notin> set l \<Longrightarrow> splitOn d (joinWith [d] ls) = ls"
proof (induction ls)
  case Nil
  then show ?case by simp
next
  case (Cons l ls)
  show ?case
  proof (cases "ls = []")
    case True
    with Cons.prems show ?thesis by (simp add: splitOn_no_sep)
  next
    case False
    with Cons have "splitOn d (joinWith [d] ls) = ls" by simp
    moreover have "joinWith [d] (l # ls) = l @ d # joinWith [d] ls"
      using False by (simp add: joinWith_Cons)
    ultimately show ?thesis using Cons.prems by (simp add: splitOn_append_sep splitOn_no_sep)
  qed
qed

subsection \<open>The lines after the opening fence in the themed renderer\<close>

lemma renderLines_inCodeBlock:
  "renderLines sw theme cols ls st = Inr st' \<Longrightarrow>
   rs_inCodeBlock st' = fenceOpenFrom (rs_inCodeBlock st) ls"
proof (induction ls arbitrary: st)
  case Nil
  then show ?case by (simp add: fenceOpenFrom_def)
next
  case (Cons l ls)
  let ?next = "case ls of [] \<Rightarrow> None | n # ns \<Rightarrow> Some n"
  from Cons.prems obtain st1 where 1: "renderLine sw theme cols l ?next st = Inr st1"
    and 2: "renderLines sw theme cols ls st1 = Inr st'"
    by (auto split: sum.splits)
  from Cons.IH [OF 2] renderLine_inCodeBlock [OF 1] show ?case
    by (simp add: fenceOpenFrom_Cons)
qed

text \<open>The lines up to a fence line are rendered without regard to what follows it.\<close>

lemma renderLines_append_fence:
  assumes "fenceLine f"
  shows "renderLines sw theme cols (pre @ f # code) st =
     (case renderLines sw theme cols (pre @ [f]) st of
        Inl e \<Rightarrow> Inl e
      | Inr st' \<Rightarrow> renderLines sw theme cols code st')"
proof (induction pre arbitrary: st)
  case Nil
  have "renderLine sw theme cols f (case code of [] \<Rightarrow> None | n # ns \<Rightarrow> Some n) st
      = renderLine sw theme cols f None st"
    using assms by (intro renderLine_next_irrelevant) simp
  then show ?case by (simp split: sum.splits)
next
  case (Cons l pre)
  have n: "(case pre @ f # code of [] \<Rightarrow> None | n # ns \<Rightarrow> Some n)
      = (case pre @ [f] of [] \<Rightarrow> None | n # ns \<Rightarrow> Some n)"
    by (cases pre) simp_all
  show ?case
  proof (cases "renderLine sw theme cols l (case pre @ [f] of [] \<Rightarrow> None | n # ns \<Rightarrow> Some n) st")
    case (Inl e)
    with n show ?thesis by simp
  next
    case (Inr st1)
    with n Cons.IH [of st1] show ?thesis by simp
  qed
qed

lemma renderLines_code:
  "rs_inCodeBlock st \<Longrightarrow> list_all (\<lambda>l. \<not> fenceLine l) code \<Longrightarrow>
   renderLines sw theme cols code st =
     Inr (st\<lparr>rs_chunks := foldl (\<lambda>ch l. codeLine theme (rs_codeBlockLang st) l ch)
                             (rs_chunks st) code\<rparr>)"
proof (induction code arbitrary: st)
  case Nil
  show ?case by simp
next
  case (Cons l code)
  let ?st1 = "st\<lparr>rs_chunks := codeLine theme (rs_codeBlockLang st) l (rs_chunks st)\<rparr>"
  from Cons.prems have l: "\<not> fenceLine l" and c: "list_all (\<lambda>l. \<not> fenceLine l) code"
    by simp_all
  have 1: "renderLine sw theme cols l next st = Inr ?st1" for "next"
    using l Cons.prems(1) by (rule renderLine_code)
  have 2: "rs_inCodeBlock ?st1" using Cons.prems(1) by simp
  from Cons.IH [OF 2 c] 1 show ?case by simp
qed

text \<open>A line inside a code block adds one chunk: the line, indented, with its newline.\<close>

lemma codeLine_chunk:
  "\<exists>c. codeLine theme lang l chunks = chunks @ [c] \<and> chunk_text c = ustr ''  '' @ l @ [10]"
  by (simp add: codeLine_def addChunk_def)

lemma codeLines_chunks:
  "\<exists>cs. foldl (\<lambda>ch l. codeLine theme lang l ch) chunks code = chunks @ cs \<and>
        map chunk_text cs = map (\<lambda>l. ustr ''  '' @ l @ [10]) code"
proof (induction code arbitrary: chunks)
  case Nil
  show ?case by simp
next
  case (Cons l code)
  obtain c where c: "codeLine theme lang l chunks = chunks @ [c]"
    "chunk_text c = ustr ''  '' @ l @ [10]"
    using codeLine_chunk by blast
  from Cons [of "chunks @ [c]"] obtain cs
    where cs: "foldl (\<lambda>ch l. codeLine theme lang l ch) (chunks @ [c]) code = (chunks @ [c]) @ cs"
      "map chunk_text cs = map (\<lambda>l. ustr ''  '' @ l @ [10]) code"
    by blast
  have "foldl (\<lambda>ch l. codeLine theme lang l ch) chunks (l # code) = chunks @ (c # cs)"
    using c(1) cs(1) by simp
  moreover have "map chunk_text (c # cs) = map (\<lambda>l. ustr ''  '' @ l @ [10]) (l # code)"
    using c(2) cs(2) by simp
  ultimately show ?case by blast
qed

lemma themed_code_lines:
  assumes "splitOn 10 md = pre @ fence # code" and "\<not> fenceOpenFrom False pre"
    and "fenceLine fence" and "list_all (\<lambda>l. \<not> fenceLine l) code"
  shows "case renderMarkdownThemedStyled sw stdoutColumns (joinWith [10] (pre @ [fence]))
                tuiTheme optCols of
           Inl e \<Rightarrow> renderMarkdownThemedStyled sw stdoutColumns md tuiTheme optCols = Inl e
         | Inr chunks \<Rightarrow>
             \<exists>cs. renderMarkdownThemedStyled sw stdoutColumns md tuiTheme optCols
                    = Inr (chunks @ cs) \<and>
                  map chunk_text cs = map (\<lambda>l. ustr ''  '' @ l @ [10]) code"
proof -
  let ?cols = "colsOf optCols stdoutColumns"
  let ?theme = "internalTheme tuiTheme"
  have nl: "\<forall>l\<in>set (pre @ [fence]). 10 \<notin> set l"
    using splitOn_lines [of _ 10 md] assms(1) by simp
  have h: "splitOn 10 (joinWith [10] (pre @ [fence])) = pre @ [fence]"
    by (rule splitOn_joinWith [OF _ nl]) simp
  have a: "renderLines sw ?theme ?cols (pre @ fence # code) initialState =
     (case renderLines sw ?theme ?cols (pre @ [fence]) initialState of
        Inl e \<Rightarrow> Inl e
      | Inr st' \<Rightarrow> renderLines sw ?theme ?cols code st')"
    using assms(3) by (rule renderLines_append_fence)
  show ?thesis
  proof (cases "renderLines sw ?theme ?cols (pre @ [fence]) initialState")
    case (Inl e)
    with a h assms(1) show ?thesis by (simp add: renderMarkdownThemedStyled_def Let_def)
  next
    case (Inr st')
    have "rs_inCodeBlock st' = fenceOpenFrom False (pre @ [fence])"
      using renderLines_inCodeBlock [OF Inr] by (simp add: initialState_def)
    then have i: "rs_inCodeBlock st'" using fenceOpenFrom_split(1) [OF assms(2,3,4)] by simp
    obtain cs where cs:
      "foldl (\<lambda>ch l. codeLine ?theme (rs_codeBlockLang st') l ch) (rs_chunks st') code
         = rs_chunks st' @ cs"
      "map chunk_text cs = map (\<lambda>l. ustr ''  '' @ l @ [10]) code"
      using codeLines_chunks by blast
    have "renderMarkdownThemedStyled sw stdoutColumns md tuiTheme optCols
        = Inr (rs_chunks st' @ cs)"
      using a Inr renderLines_code [OF i assms(4), of sw ?theme ?cols] cs(1) assms(1)
      by (simp add: renderMarkdownThemedStyled_def Let_def)
    moreover have "renderMarkdownThemedStyled sw stdoutColumns (joinWith [10] (pre @ [fence]))
        tuiTheme optCols = Inr (rs_chunks st')"
      using Inr h by (simp add: renderMarkdownThemedStyled_def Let_def)
    ultimately show ?thesis using cs(2) by simp
  qed
qed

subsection \<open>The lines after the opening fence in the segment parser\<close>

text \<open>Outside a code block no line of a block is waiting.\<close>

lemma segmentLine_content_empty:
  "(\<not> sg_inCodeBlock st \<longrightarrow> sg_codeBlockContent st = []) \<Longrightarrow>
   \<not> sg_inCodeBlock (segmentLine st l) \<longrightarrow> sg_codeBlockContent (segmentLine st l) = []"
  by (simp add: segmentLine_def Let_def flushText_def)

lemma segment_fold_content_empty:
  "(\<not> sg_inCodeBlock st \<longrightarrow> sg_codeBlockContent st = []) \<Longrightarrow>
   \<not> sg_inCodeBlock (foldl segmentLine st ls) \<longrightarrow> sg_codeBlockContent (foldl segmentLine st ls) = []"
proof (induction ls arbitrary: st)
  case Nil
  then show ?case by simp
next
  case (Cons l ls)
  from Cons.IH [OF segmentLine_content_empty [OF Cons.prems]] show ?case by simp
qed

text \<open>The state after the opening fence: in a block of the fence's language, empty so far.\<close>

lemma segment_at_fence:
  assumes "\<not> fenceOpenFrom False pre" and "fenceLine fence"
  shows "sg_inCodeBlock (foldl segmentLine segmentStart (pre @ [fence]))"
    and "sg_currentText (foldl segmentLine segmentStart (pre @ [fence])) = []"
    and "sg_codeBlockContent (foldl segmentLine segmentStart (pre @ [fence])) = []"
    and "sg_codeBlockLang (foldl segmentLine segmentStart (pre @ [fence]))
           = (if trim (drop 3 (trim fence)) \<noteq> [] then trim (drop 3 (trim fence))
              else ustr ''text'')"
proof -
  let ?s0 = "foldl segmentLine segmentStart pre"
  have i: "\<not> sg_inCodeBlock ?s0"
    using assms(1) by (simp add: segment_fold_inCodeBlock segmentStart_def)
  have c: "sg_codeBlockContent ?s0 = []"
    using segment_fold_content_empty [of segmentStart pre] i by (simp add: segmentStart_def)
  have f: "foldl segmentLine segmentStart (pre @ [fence]) = segmentLine ?s0 fence" by simp
  have t: "startsWith (trim fence) (ustr ''```'')" using assms(2) by (simp add: fenceLine_def)
  show "sg_inCodeBlock (foldl segmentLine segmentStart (pre @ [fence]))"
    unfolding f using i t by (simp add: segmentLine_def Let_def)
  show "sg_currentText (foldl segmentLine segmentStart (pre @ [fence])) = []"
    unfolding f using i t by (simp add: segmentLine_def Let_def flushText_def)
  show "sg_codeBlockContent (foldl segmentLine segmentStart (pre @ [fence])) = []"
    unfolding f using i t c by (simp add: segmentLine_def Let_def flushText_def)
  show "sg_codeBlockLang (foldl segmentLine segmentStart (pre @ [fence]))
           = (if trim (drop 3 (trim fence)) \<noteq> [] then trim (drop 3 (trim fence))
              else ustr ''text'')"
    unfolding f using i t by (simp add: segmentLine_def Let_def)
qed

lemma segment_code_lines:
  "sg_inCodeBlock st \<Longrightarrow> list_all (\<lambda>l. \<not> fenceLine l) code \<Longrightarrow>
   foldl segmentLine st code = st\<lparr>sg_codeBlockContent := sg_codeBlockContent st @ code\<rparr>"
proof (induction code arbitrary: st)
  case Nil
  show ?case by simp
next
  case (Cons l code)
  from Cons.prems have l: "\<not> fenceLine l" and c: "list_all (\<lambda>l. \<not> fenceLine l) code"
    by simp_all
  have 1: "segmentLine st l = st\<lparr>sg_codeBlockContent := sg_codeBlockContent st @ [l]\<rparr>"
    using l Cons.prems(1) by (simp add: segmentLine_def fenceLine_def Let_def)
  have 2: "sg_inCodeBlock (st\<lparr>sg_codeBlockContent := sg_codeBlockContent st @ [l]\<rparr>)"
    using Cons.prems(1) by simp
  from Cons.IH [OF 2 c] 1 show ?case by simp
qed

lemma segments_code_lines:
  assumes "splitOn 10 md = pre @ fence # code" and "\<not> fenceOpenFrom False pre"
    and "fenceLine fence" and "list_all (\<lambda>l. \<not> fenceLine l) code"
  shows "parseMarkdownSegments md
           = parseMarkdownSegments (joinWith [10] (pre @ [fence]))
             @ (if code = [] then []
                else [CodeSegment (joinWith [10] code)
                        (if trim (drop 3 (trim fence)) \<noteq> [] then trim (drop 3 (trim fence))
                         else ustr ''text'')])"
    and "parseMarkdownSegments (md @ [10] @ ustr ''```'')
           = parseMarkdownSegments (joinWith [10] (pre @ [fence]))
             @ [CodeSegment (joinWith [10] code)
                  (if trim (drop 3 (trim fence)) \<noteq> [] then trim (drop 3 (trim fence))
                   else ustr ''text'')]"
proof -
  let ?s1 = "foldl segmentLine segmentStart (pre @ [fence])"
  let ?lang = "if trim (drop 3 (trim fence)) \<noteq> [] then trim (drop 3 (trim fence))
               else ustr ''text''"
  note f = segment_at_fence [OF assms(2,3)]
  have nl: "\<forall>l\<in>set (pre @ [fence]). 10 \<notin> set l"
    using splitOn_lines [of _ 10 md] assms(1) by simp
  have h: "splitOn 10 (joinWith [10] (pre @ [fence])) = pre @ [fence]"
    by (rule splitOn_joinWith [OF _ nl]) simp
  have head: "parseMarkdownSegments (joinWith [10] (pre @ [fence])) = sg_segments ?s1"
    unfolding parseMarkdownSegments_def h using f by (simp add: Let_def flushText_def)
  have "foldl segmentLine segmentStart (pre @ fence # code) = foldl segmentLine ?s1 code"
    by simp
  also have "\<dots> = ?s1\<lparr>sg_codeBlockContent := sg_codeBlockContent ?s1 @ code\<rparr>"
    using f(1) assms(4) by (rule segment_code_lines)
  finally have body: "foldl segmentLine segmentStart (pre @ fence # code)
      = ?s1\<lparr>sg_codeBlockContent := code\<rparr>"
    using f(3) by simp
  have op: "parseMarkdownSegments md
      = sg_segments ?s1 @ (if code = [] then [] else [CodeSegment (joinWith [10] code) ?lang])"
    unfolding parseMarkdownSegments_def assms(1) body
    using f by (simp add: Let_def flushText_def)
  show "parseMarkdownSegments md
           = parseMarkdownSegments (joinWith [10] (pre @ [fence]))
             @ (if code = [] then [] else [CodeSegment (joinWith [10] code) ?lang])"
    unfolding head by (rule op)
  have s: "splitOn 10 (md @ [10] @ ustr ''```'') = (pre @ fence # code) @ [ustr ''```'']"
    using assms(1) by (simp add: splitOn_append_sep splitOn_fence)
  have "foldl segmentLine segmentStart ((pre @ fence # code) @ [ustr ''```''])
      = segmentLine (?s1\<lparr>sg_codeBlockContent := code\<rparr>) (ustr ''```'')"
    using body by (simp only: foldl_append foldl.simps)
  also have "\<dots> = ?s1\<lparr>sg_segments := sg_segments ?s1 @ [CodeSegment (joinWith [10] code) ?lang],
        sg_codeBlockContent := [], sg_inCodeBlock := False, sg_codeBlockLang := []\<rparr>"
    using f fenceLine_fence by (simp add: segmentLine_def fenceLine_def Let_def)
  finally have cl: "parseMarkdownSegments (md @ [10] @ ustr ''```'')
      = sg_segments ?s1 @ [CodeSegment (joinWith [10] code) ?lang]"
    unfolding parseMarkdownSegments_def s
    using f(2) by (simp add: Let_def flushText_def)
  show "parseMarkdownSegments (md @ [10] @ ustr ''```'')
           = parseMarkdownSegments (joinWith [10] (pre @ [fence]))
             @ [CodeSegment (joinWith [10] code) ?lang]"
    unfolding head by (rule cl)
qed

text \<open>
  Claim C7, amended. A document ends in an unterminated code fence when its lines are:
  lines that leave no fence open, an opening fence line, and lines none of which is a
  fence line. For every such document the themed renderer returns what it returns for
  the document cut after the opening fence, followed by one chunk for each line after
  the fence, in their order, whose text is the line indented by two spaces and ended by
  a newline; when the part before the fence throws, so does the whole; and appending a
  closing fence line changes nothing. The segment parser returns the segments of the
  document cut after the opening fence, followed by one code segment that holds the lines
  after the fence, joined by newlines, in the language of the fence (\<open>text\<close> when it names
  none), provided there is at least one such line. With a closing fence line appended the
  parser returns that code segment also when no line follows the fence, so the two differ
  exactly when the opening fence is the last line.
\<close>

theorem unterminated_fence_as_closed:
  assumes "splitOn 10 md = pre @ fence # code" and "\<not> fenceOpenFrom False pre"
    and "fenceLine fence" and "list_all (\<lambda>l. \<not> fenceLine l) code"
  shows "(case renderMarkdownThemedStyled sw stdoutColumns (joinWith [10] (pre @ [fence]))
                 tuiTheme optCols of
            Inl e \<Rightarrow> renderMarkdownThemedStyled sw stdoutColumns md tuiTheme optCols = Inl e
          | Inr chunks \<Rightarrow>
              \<exists>cs. renderMarkdownThemedStyled sw stdoutColumns md tuiTheme optCols
                     = Inr (chunks @ cs) \<and>
                   map chunk_text cs = map (\<lambda>l. ustr ''  '' @ l @ [10]) code) \<and>
         renderMarkdownThemedStyled sw stdoutColumns (md @ [10] @ ustr ''```'') tuiTheme optCols
           = renderMarkdownThemedStyled sw stdoutColumns md tuiTheme optCols \<and>
         parseMarkdownSegments md
           = parseMarkdownSegments (joinWith [10] (pre @ [fence]))
             @ (if code = [] then []
                else [CodeSegment (joinWith [10] code)
                        (if trim (drop 3 (trim fence)) \<noteq> [] then trim (drop 3 (trim fence))
                         else ustr ''text'')]) \<and>
         parseMarkdownSegments (md @ [10] @ ustr ''```'')
           = parseMarkdownSegments (joinWith [10] (pre @ [fence]))
             @ [CodeSegment (joinWith [10] code)
                  (if trim (drop 3 (trim fence)) \<noteq> [] then trim (drop 3 (trim fence))
                   else ustr ''text'')]"
proof -
  have o: "fenceOpen md"
    unfolding fenceOpen_def assms(1) by (rule fenceOpenFrom_split(2) [OF assms(2,3,4)])
  from themed_code_lines [OF assms] themed_close [OF o] segments_code_lines [OF assms]
  show ?thesis by (intro conjI)
qed

theorem unterminated_fence_as_closed_witness:
  "splitOn 10 (ustr ''hi'' @ [10] @ ustr ''```js'' @ [10] @ ustr ''a'' @ [10] @ ustr ''b'' @ [10] @ ustr ''c'')
     = [ustr ''hi''] @ ustr ''```js'' # [ustr ''a'', ustr ''b'', ustr ''c''] \<and>
   \<not> fenceOpenFrom False [ustr ''hi''] \<and>
   fenceLine (ustr ''```js'') \<and>
   list_all (\<lambda>l. \<not> fenceLine l) [ustr ''a'', ustr ''b'', ustr ''c''] \<and>
   (case renderMarkdownThemedStyled length None (joinWith [10] ([ustr ''hi''] @ [ustr ''```js'']))
           createDefaultCliTheme (Some 80) of
      Inl e \<Rightarrow>
        renderMarkdownThemedStyled length None
          (ustr ''hi'' @ [10] @ ustr ''```js'' @ [10] @ ustr ''a'' @ [10] @ ustr ''b'' @ [10] @ ustr ''c'')
          createDefaultCliTheme (Some 80) = Inl e
    | Inr chunks \<Rightarrow>
        \<exists>cs. renderMarkdownThemedStyled length None
               (ustr ''hi'' @ [10] @ ustr ''```js'' @ [10] @ ustr ''a'' @ [10] @ ustr ''b'' @ [10] @ ustr ''c'')
               createDefaultCliTheme (Some 80) = Inr (chunks @ cs) \<and>
             map chunk_text cs = [ustr ''  a'' @ [10], ustr ''  b'' @ [10], ustr ''  c'' @ [10]]) \<and>
   renderMarkdownThemedStyled length None
     ((ustr ''hi'' @ [10] @ ustr ''```js'' @ [10] @ ustr ''a'' @ [10] @ ustr ''b'' @ [10] @ ustr ''c'')
        @ [10] @ ustr ''```'')
     createDefaultCliTheme (Some 80)
   = renderMarkdownThemedStyled length None
       (ustr ''hi'' @ [10] @ ustr ''```js'' @ [10] @ ustr ''a'' @ [10] @ ustr ''b'' @ [10] @ ustr ''c'')
       createDefaultCliTheme (Some 80) \<and>
   parseMarkdownSegments
     (ustr ''hi'' @ [10] @ ustr ''```js'' @ [10] @ ustr ''a'' @ [10] @ ustr ''b'' @ [10] @ ustr ''c'')
   = [TextSegment (ustr ''hi''),
      CodeSegment (ustr ''a'' @ [10] @ ustr ''b'' @ [10] @ ustr ''c'') (ustr ''js'')] \<and>
   parseMarkdownSegments
     ((ustr ''hi'' @ [10] @ ustr ''```js'' @ [10] @ ustr ''a'' @ [10] @ ustr ''b'' @ [10] @ ustr ''c'')
        @ [10] @ ustr ''```'')
   = [TextSegment (ustr ''hi''),
      CodeSegment (ustr ''a'' @ [10] @ ustr ''b'' @ [10] @ ustr ''c'') (ustr ''js'')]"
proof -
  let ?md = "ustr ''hi'' @ [10] @ ustr ''```js'' @ [10] @ ustr ''a'' @ [10] @ ustr ''b'' @ [10] @ ustr ''c''"
  have s: "splitOn 10 ?md = [ustr ''hi''] @ ustr ''```js'' # [ustr ''a'', ustr ''b'', ustr ''c'']"
    by (simp add: ustr_def)
  have f: "fenceLine (ustr ''```js'')" "\<not> fenceLine (ustr ''hi'')" "\<not> fenceLine (ustr ''a'')"
    "\<not> fenceLine (ustr ''b'')" "\<not> fenceLine (ustr ''c'')"
    by (simp_all add: fenceLine_def ustr_def trim_def trimStart_def trimEnd_def isWhiteSpace_def
        startsWith_def)
  have p: "\<not> fenceOpenFrom False [ustr ''hi'']" by (simp add: fenceOpenFrom_def f)
  have c: "list_all (\<lambda>l. \<not> fenceLine l) [ustr ''a'', ustr ''b'', ustr ''c'']" by (simp add: f)
  have l: "(if trim (drop 3 (trim (ustr ''```js''))) \<noteq> [] then trim (drop 3 (trim (ustr ''```js'')))
            else ustr ''text'') = ustr ''js''"
    by (simp add: ustr_def trim_def trimStart_def trimEnd_def isWhiteSpace_def)
  have h: "parseMarkdownSegments (joinWith [10] ([ustr ''hi''] @ [ustr ''```js'']))
      = [TextSegment (ustr ''hi'')]"
    by (simp add: parseMarkdownSegments_def segmentStart_def segmentLine_def flushText_def Let_def
        ustr_def trim_def trimStart_def trimEnd_def isWhiteSpace_def startsWith_def
        split del: if_split)
  have j: "joinWith [10] [ustr ''a'', ustr ''b'', ustr ''c'']
      = ustr ''a'' @ [10] @ ustr ''b'' @ [10] @ ustr ''c''"
    by simp
  have m: "map (\<lambda>l. ustr ''  '' @ l @ [10]) [ustr ''a'', ustr ''b'', ustr ''c'']
      = [ustr ''  a'' @ [10], ustr ''  b'' @ [10], ustr ''  c'' @ [10]]"
    by (simp add: ustr_def)
  note t = unterminated_fence_as_closed [OF s p f(1) c, of length None createDefaultCliTheme
      "Some 80", unfolded l h j m]
  note t1 = t [THEN conjunct1]
  note t2 = t [THEN conjunct2, THEN conjunct1]
  note t3 = t [THEN conjunct2, THEN conjunct2, THEN conjunct1]
  note t4 = t [THEN conjunct2, THEN conjunct2, THEN conjunct2]
  have t3': "parseMarkdownSegments ?md
      = [TextSegment (ustr ''hi''),
         CodeSegment (ustr ''a'' @ [10] @ ustr ''b'' @ [10] @ ustr ''c'') (ustr ''js'')]"
    using t3 by simp
  have t4': "parseMarkdownSegments (?md @ [10] @ ustr ''```'')
      = [TextSegment (ustr ''hi''),
         CodeSegment (ustr ''a'' @ [10] @ ustr ''b'' @ [10] @ ustr ''c'') (ustr ''js'')]"
    using t4 by simp
  show ?thesis
    by (intro conjI) (rule s p f(1) c t1 t2 t3' t4')+
qed

section \<open>The plain renderer adds no escape sequences\<close>

lemma ansiSeq_single [simp]: "ansiSeq [c] = None"
  by simp

lemma ansiSeq_not_esc: "c \<noteq> 27 \<Longrightarrow> ansiSeq (c # cs) = None"
  by (cases cs) simp_all

lemma hasAnsi_no_esc: "27 \<notin> set s \<Longrightarrow> \<not> hasAnsi s"
  by (induction s) (auto simp: ansiSeq_not_esc)

lemma hasAnsi_prefix_no_esc: "27 \<notin> set p \<Longrightarrow> hasAnsi (p @ s) = hasAnsi s"
  by (induction p) (auto simp: ansiSeq_not_esc)

lemma hasAnsi_newline: "hasAnsi (a @ 10 # b) \<longleftrightarrow> hasAnsi a \<or> hasAnsi b"
proof (induction a)
  case Nil
  show ?case by (simp add: ansiSeq_not_esc)
next
  case (Cons c a)
  have "ansiSeq ((c # a) @ 10 # b) = map_option (\<lambda>(p, r). (p, r @ 10 # b)) (ansiSeq (c # a))"
    by (rule ansiSeq_append_other) (simp_all add: isCodeChar_def)
  then have "ansiSeq (c # a @ 10 # b) \<noteq> None \<longleftrightarrow> ansiSeq (c # a) \<noteq> None" by simp
  with Cons show ?case by auto
qed

lemma hasAnsi_suffix: "\<not> hasAnsi s \<Longrightarrow> \<not> hasAnsi (dropWhile P s)"
  using hasAnsi_appendI2 [of "dropWhile P s" "takeWhile P s"] by auto

lemma hasAnsi_drop: "\<not> hasAnsi s \<Longrightarrow> \<not> hasAnsi (drop n s)"
  using hasAnsi_appendI2 [of "drop n s" "take n s"] by auto

lemma hasAnsi_split: "\<not> hasAnsi s \<Longrightarrow> \<forall>l\<in>set (splitOn 10 s). \<not> hasAnsi l"
proof (induction s)
  case Nil
  show ?case by simp
next
  case (Cons c s)
  have t: "\<not> hasAnsi s" using Cons.prems by auto
  obtain x xs where x: "splitOn 10 s = x # xs" by (cases "splitOn 10 s") simp_all
  with Cons.IH [OF t] have xs: "\<not> hasAnsi x" "\<forall>l\<in>set xs. \<not> hasAnsi l" by simp_all
  show ?case
  proof (cases "c = 10")
    case True
    with x xs show ?thesis by simp
  next
    case False
    have "\<not> hasAnsi (c # x)"
    proof
      assume h: "hasAnsi (c # x)"
      have "\<exists>r. s = x @ r" using x
      proof (induction s arbitrary: x xs)
        case Nil
        then show ?case by simp
      next
        case (Cons d s)
        show ?case
        proof (cases "d = 10")
          case True
          with Cons.prems show ?thesis by simp
        next
          case False
          obtain y ys where y: "splitOn 10 s = y # ys" by (cases "splitOn 10 s") simp_all
          from Cons.IH [OF y] obtain r where "s = y @ r" by blast
          with False y Cons.prems show ?thesis by auto
        qed
      qed
      then obtain r where "s = x @ r" by blast
      then have "c # s = (c # x) @ r" by simp
      with h hasAnsi_appendI1 [of "c # x" r] have "hasAnsi (c # s)" by simp
      with Cons.prems show False by simp
    qed
    with False x xs show ?thesis by simp
  qed
qed

lemma hasAnsi_join_indent:
  "27 \<notin> set ind \<Longrightarrow> \<forall>x\<in>set xs. \<not> hasAnsi x \<Longrightarrow> \<not> hasAnsi (joinWith (10 # ind) xs)"
proof (induction xs)
  case Nil
  show ?case by simp
next
  case (Cons x xs)
  then have "\<not> hasAnsi (ind @ joinWith (10 # ind) xs)"
    by (simp add: hasAnsi_prefix_no_esc)
  with Cons.prems show ?case by (simp add: joinWith_Cons hasAnsi_newline)
qed

lemma hasAnsi_join:
  "\<forall>x\<in>set xs. \<not> hasAnsi x \<Longrightarrow> \<not> hasAnsi (joinWith [10] xs)"
  using hasAnsi_join_indent [of "[]" xs] by simp

lemma spaceThenSome_no_ansi:
  assumes "spaceThenSome s = Some t" and "\<not> hasAnsi s"
  shows "\<not> hasAnsi t"
proof -
  from assms(1) have "t = dropWhile isWhiteSpace s \<or> (\<exists>c. t = [c])"
    by (auto simp: spaceThenSome_def Let_def split: if_splits)
  with assms(2) show ?thesis using hasAnsi_suffix by auto
qed

lemma simpleHeaderMatch_no_ansi:
  assumes "simpleHeaderMatch s = Some t" and "\<not> hasAnsi s"
  shows "\<not> hasAnsi t"
proof -
  from assms(1) have "spaceThenSome (dropWhile (\<lambda>c. c = 35) s) = Some t"
    by (simp add: simpleHeaderMatch_def Let_def split: if_splits)
  then show ?thesis using hasAnsi_suffix [OF assms(2)] by (rule spaceThenSome_no_ansi)
qed

lemma simpleListMatch_no_ansi:
  assumes "simpleListMatch s = Some (ws, t)" and "\<not> hasAnsi s"
  shows "\<not> hasAnsi t"
proof -
  from assms(1) obtain b s1 where d: "dropWhile isWhiteSpace s = b # s1"
    and t: "spaceThenSome s1 = Some t"
    by (auto simp: simpleListMatch_def split: list.splits if_splits)
  have "\<not> hasAnsi (b # s1)" using hasAnsi_suffix [OF assms(2), of isWhiteSpace] d by simp
  then have "\<not> hasAnsi s1" by simp
  with t show ?thesis by (rule spaceThenSome_no_ansi)
qed

lemma box_rule_no_esc: "repeat [Box_horizontal] n = Inr r \<Longrightarrow> 27 \<notin> set r"
  by (auto simp: repeat_def Box_horizontal_def split: if_splits)

lemma simpleLine_clean:
  assumes "cleanState st" and "\<not> hasAnsi line" and "27 \<notin> set ind" and "27 \<notin> set pfx"
    and "simpleLine cols ind pfx line st = Inr st'"
  shows "cleanState st'"
proof (cases "startsWith line (ustr ''```'')")
  case True
  have "\<not> hasAnsi (ind @ joinWith ([10] @ ind) (ss_codeBlockContent st))"
    using assms(1,3) by (simp add: hasAnsi_prefix_no_esc hasAnsi_join_indent cleanState_def)
  with True assms(1,5) show ?thesis
    by (auto simp: simpleLine_def cleanState_def split: if_splits)
next
  case nf: False
  show ?thesis
  proof (cases "ss_inCodeBlock st")
    case True
    with nf assms(1,2,5) show ?thesis by (auto simp: simpleLine_def cleanState_def)
  next
    case nc: False
    show ?thesis
    proof (cases "simpleHeaderMatch line")
      case (Some t)
      from simpleHeaderMatch_no_ansi [OF Some assms(2)]
      have "\<not> hasAnsi ([10] @ t @ [10])"
        using hasAnsi_newline [of "[]" "t @ [10]"] hasAnsi_newline [of t "[]"] by simp
      with nf nc Some assms(1,5) show ?thesis by (auto simp: simpleLine_def cleanState_def)
    next
      case nh: None
      show ?thesis
      proof (cases "isHorizontalRule (trim line)")
        case True
        with nf nc nh assms(5) obtain r where r: "repeat [Box_horizontal] (min (cols - 4) 60) = Inr r"
          and st': "st' = st\<lparr>ss_result := ss_result st @ [[10] @ r @ [10]]\<rparr>"
          by (auto simp: simpleLine_def split: sum.splits)
        have "27 \<notin> set ([10] @ r @ [10])" using box_rule_no_esc [OF r] by simp
        then have "\<not> hasAnsi ([10] @ r @ [10])" by (rule hasAnsi_no_esc)
        with st' assms(1) show ?thesis by (auto simp: cleanState_def)
      next
        case nr: False
        show ?thesis
        proof (cases "simpleListMatch line")
          case None
          with nf nc nh nr assms(1,2,5) show ?thesis by (auto simp: simpleLine_def cleanState_def)
        next
          case (Some wt)
          obtain ws t where wt: "wt = (ws, t)" by (cases wt)
          from simpleListMatch_no_ansi [OF Some [unfolded wt] assms(2)] have t: "\<not> hasAnsi t" .
          have "27 \<notin> set (concat (replicate (length ws div 2) ind) @ pfx)"
            using assms(3,4) by auto
          from hasAnsi_prefix_no_esc [OF this, of t] t
          have "\<not> hasAnsi ((concat (replicate (length ws div 2) ind) @ pfx) @ t)" by simp
          with nf nc nh nr Some wt assms(1,5) show ?thesis
            by (auto simp: simpleLine_def cleanState_def Let_def)
        qed
      qed
    qed
  qed
qed

lemma simpleLines_clean:
  assumes "27 \<notin> set ind" and "27 \<notin> set pfx"
  shows "cleanState st \<Longrightarrow> \<forall>l\<in>set ls. \<not> hasAnsi l \<Longrightarrow>
     simpleLines cols ind pfx ls st = Inr st' \<Longrightarrow> cleanState st'"
proof (induction ls arbitrary: st)
  case Nil
  then show ?case by simp
next
  case (Cons l ls)
  from Cons.prems(3) obtain st1 where s1: "simpleLine cols ind pfx l st = Inr st1"
    and r: "simpleLines cols ind pfx ls st1 = Inr st'"
    by (auto split: sum.splits)
  have "cleanState st1"
    using simpleLine_clean [OF Cons.prems(1) _ assms s1] Cons.prems(2) by simp
  from Cons.IH [OF this _ r] Cons.prems(2) show ?case by simp
qed

lemma simpleLine_total:
  assumes "4 \<le> cols"
  shows "\<exists>st'. simpleLine cols ind pfx line st = Inr st'"
proof -
  from assms have "\<not> min (cols - 4) 60 < 0" by simp
  then show ?thesis
    by (simp add: simpleLine_def Let_def repeat_def split: option.splits prod.splits)
qed

lemma simpleLines_total:
  "4 \<le> cols \<Longrightarrow> \<exists>st'. simpleLines cols ind pfx ls st = Inr st'"
proof (induction ls arbitrary: st)
  case Nil
  show ?case by simp
next
  case (Cons l ls)
  from simpleLine_total [OF Cons.prems] obtain st1 where "simpleLine cols ind pfx l st = Inr st1"
    by blast
  with Cons.IH [OF Cons.prems, of st1] show ?case by simp
qed

text \<open>
  Claim C5, as stated, covers documents that hold escape sequences themselves. The plain
  renderer copies an ordinary line to its output unchanged, so the bold sequence of the
  document \<open>ESC [ 1 m hi\<close> is in the output.
\<close>

theorem renderMarkdown_plain_counterexample:
  "renderMarkdown length None ([27, 91, 49, 109] @ ustr ''hi'')
     \<lparr>opt_cols = None, opt_indent = None, opt_codePrefix = None, opt_listPrefix = None,
      opt_colors = Some False, opt_theme = None\<rparr>
     = Inr ([27, 91, 49, 109] @ ustr ''hi'') \<and>
   hasAnsi ([27, 91, 49, 109] @ ustr ''hi'')"
  by (simp add: renderMarkdown_def renderMarkdownSimple_def colsOf_def simpleLine_def Let_def
      simpleHeaderMatch_def simpleListMatch_def isHorizontalRule_def isBullet_def ustr_def
      trim_def trimStart_def trimEnd_def isWhiteSpace_def startsWith_def isCodeChar_def
      split del: if_split)

text \<open>
  Claim C5, amended: for every document that itself contains no ANSI escape sequence,
  calling \<open>renderMarkdown\<close> with \<open>colors = false\<close>, a width of at least 4 columns and
  \<open>indent\<close> and \<open>listPrefix\<close> options free of ESC characters (the defaults are) returns an
  output string that contains no ANSI escape sequence: the plain renderer adds none.
\<close>

theorem renderMarkdown_plain_no_escapes:
  assumes "\<not> hasAnsi md"
    and "opt_colors options = Some False"
    and "4 \<le> colsOf (opt_cols options) stdoutColumns"
    and "27 \<notin> set (case opt_indent options of Some s \<Rightarrow> s | None \<Rightarrow> ustr ''  '')"
    and "27 \<notin> set (case opt_listPrefix options of Some s \<Rightarrow> s | None \<Rightarrow> ustr ''- '')"
  shows "\<exists>out. renderMarkdown sw stdoutColumns md options = Inr out \<and> \<not> hasAnsi out"
proof -
  let ?cols = "colsOf (opt_cols options) stdoutColumns"
  let ?ind = "case opt_indent options of Some s \<Rightarrow> s | None \<Rightarrow> ustr ''  ''"
  let ?pfx = "case opt_listPrefix options of Some s \<Rightarrow> s | None \<Rightarrow> ustr ''- ''"
  let ?st0 = "\<lparr>ss_inCodeBlock = False, ss_codeBlockContent = [], ss_result = []\<rparr>"
  from simpleLines_total [OF assms(3)]
  obtain st' where st': "simpleLines ?cols ?ind ?pfx (splitOn 10 md) ?st0 = Inr st'" by blast
  have "cleanState ?st0" by (simp add: cleanState_def)
  from simpleLines_clean [OF assms(4,5) this hasAnsi_split [OF assms(1)] st']
  have "\<not> hasAnsi (joinWith [10] (ss_result st'))"
    by (simp add: cleanState_def hasAnsi_join)
  moreover have "renderMarkdown sw stdoutColumns md options = Inr (joinWith [10] (ss_result st'))"
    using assms(2) st' by (simp add: renderMarkdown_def renderMarkdownSimple_def Let_def)
  ultimately show ?thesis by blast
qed

theorem renderMarkdown_plain_no_escapes_witness:
  "\<not> hasAnsi (ustr ''# Title'' @ [10] @ ustr ''- item'' @ [10] @ ustr ''| a |'' @ [10] @ ustr ''**x**'') \<and>
   renderMarkdown length None
     (ustr ''# Title'' @ [10] @ ustr ''- item'' @ [10] @ ustr ''| a |'' @ [10] @ ustr ''**x**'')
     \<lparr>opt_cols = None, opt_indent = None, opt_codePrefix = None, opt_listPrefix = None,
      opt_colors = Some False, opt_theme = None\<rparr>
     = Inr ([10] @ ustr ''Title'' @ [10, 10] @ ustr ''- item'' @ [10] @ ustr ''| a |'' @ [10]
            @ ustr ''**x**'') \<and>
   \<not> hasAnsi ([10] @ ustr ''Title'' @ [10, 10] @ ustr ''- item'' @ [10] @ ustr ''| a |'' @ [10]
            @ ustr ''**x**'')"
proof -
  let ?md = "ustr ''# Title'' @ [10] @ ustr ''- item'' @ [10] @ ustr ''| a |'' @ [10] @ ustr ''**x**''"
  let ?opts = "\<lparr>opt_cols = None, opt_indent = None, opt_codePrefix = None, opt_listPrefix = None,
      opt_colors = Some False, opt_theme = None\<rparr>"
  let ?out = "[10] @ ustr ''Title'' @ [10, 10] @ ustr ''- item'' @ [10] @ ustr ''| a |'' @ [10]
            @ ustr ''**x**''"
  have h1: "\<not> hasAnsi ?md" by (simp add: ustr_def)
  have h2: "opt_colors ?opts = Some False" by simp
  have h3: "4 \<le> colsOf (opt_cols ?opts) None" by (simp add: colsOf_def)
  have h4: "27 \<notin> set (case opt_indent ?opts of Some s \<Rightarrow> s | None \<Rightarrow> ustr ''  '')"
    by (simp add: ustr_def)
  have h5: "27 \<notin> set (case opt_listPrefix ?opts of Some s \<Rightarrow> s | None \<Rightarrow> ustr ''- '')"
    by (simp add: ustr_def)
  have e: "renderMarkdown length None ?md ?opts = Inr ?out"
    by (simp add: renderMarkdown_def renderMarkdownSimple_def colsOf_def simpleLine_def Let_def
        simpleHeaderMatch_def simpleListMatch_def spaceThenSome_def isHorizontalRule_def
        isBullet_def ustr_def trim_def trimStart_def trimEnd_def isWhiteSpace_def
        isLineTerminator_def startsWith_def split del: if_split)
  from renderMarkdown_plain_no_escapes [OF h1 h2 h3 h4 h5, of length] e
  have "\<not> hasAnsi ?out" by auto
  with h1 e show ?thesis by blast
qed

section \<open>The table invariant\<close>

subsection \<open>Rendered cells hold no newline\<close>






















lemma addsWithin_refl: "addsWithin A chunks chunks"
  by (simp add: addsWithin_def)

















subsection \<open>The rows of a rendered table\<close>

subsection \<open>Splitting rows\<close>



subsection \<open>The text of the chunks\<close>






subsection \<open>Adding rows\<close>





subsection \<open>Widths\<close>


lemma additive_append: "additiveWidth sw \<Longrightarrow> sw (a @ b) = sw a + sw b"
  by (simp add: additiveWidth_def)




lemma additive_prefix: "additiveWidth sw \<Longrightarrow> sw a \<le> sw (a @ b)"
  by (simp add: additive_append)




subsection \<open>Border lines\<close>




subsection \<open>The header row\<close>





subsection \<open>Data rows\<close>













subsection \<open>The whole table\<close>











subsection \<open>Cells of plain text\<close>
















subsection \<open>Words\<close>





subsection \<open>Wrapped lines fit\<close>






subsection \<open>The columns are wide enough for the words\<close>








subsection \<open>Tables that break the invariant\<close>











































subsection \<open>The invariant for plain cells\<close>



end
